theory Spec2Isabelle
  imports Complex_Main
begin

section \<open>The theming module: \<open>themes/plot_arrakis_night_style.py\<close>\<close>

subsection \<open>The colour cycle and the palette functions\<close>

text \<open>
  \<open>COLOR_CYCLE\<close> is the module-level list of ten hex colour strings, in the order of the
  source (its comments number the entries from 1; Python indexes them from 0).
\<close>

definition COLOR_CYCLE :: "string list" where
  "COLOR_CYCLE =
     [''#7BA898'', ''#8EC4D4'', ''#4A7088'', ''#CCA361'', ''#8FBA70'',
      ''#4A7858'', ''#6BA8B0'', ''#D4A868'', ''#5A9A78'', ''#7AA0B0'']"

text \<open>
  Python's \<open>enumerate\<close> and the comprehension \<open>[c for i, c in enumerate(xs) if i != k]\<close>.
\<close>

definition enumerate_py :: "'a list \<Rightarrow> (nat \<times> 'a) list" where
  "enumerate_py xs = zip [0..<length xs] xs"

definition drop_index :: "nat \<Rightarrow> 'a list \<Rightarrow> 'a list" where
  "drop_index k xs = map snd (filter (\<lambda>(i, c). i \<noteq> k) (enumerate_py xs))"

text \<open>
  \<open>range(n)\<close> for a Python integer: empty when \<open>n\<close> is not positive.
\<close>

definition range_py :: "int \<Rightarrow> nat list" where
  "range_py n = [0..<nat n]"

text \<open>
  \<open>get_palette(n=None, include_accent=True)\<close>. The optional \<open>n\<close> is an \<open>int option\<close>.
  The list the comprehension indexes is never empty (ten or nine entries), so
  \<open>i % len(palette)\<close> is always a valid index and no branch raises.
\<close>

definition get_palette :: "int option \<Rightarrow> bool \<Rightarrow> string list" where
  "get_palette n include_accent =
     (let palette = (if include_accent then COLOR_CYCLE else drop_index 5 COLOR_CYCLE)
      in case n of
           None \<Rightarrow> palette
         | Some k \<Rightarrow> map (\<lambda>i. palette ! (i mod length palette)) (range_py k))"

definition get_water_palette :: "int option \<Rightarrow> string list" where
  "get_water_palette n = get_palette n False"

text \<open>A hex colour string: \<open>#\<close> followed by six hexadecimal digits.\<close>

definition is_hex_digit :: "char \<Rightarrow> bool" where
  "is_hex_digit c = (c \<in> set ''0123456789ABCDEFabcdef'')"

definition is_hex_color :: "string \<Rightarrow> bool" where
  "is_hex_color s = (length s = 7 \<and> hd s = CHR ''#'' \<and> list_all is_hex_digit (tl s))"

section \<open>The generator: \<open>data/generate_bigdata.py\<close>\<close>

text \<open>
  The exceptions that can end the script. \<open>ValueError\<close> is raised by numpy for a negative
  size and by pandas for columns of different lengths, \<open>OverflowError\<close> by
  \<open>datetime + timedelta\<close> when the result leaves the supported range, and \<open>OSError\<close> by
  \<open>to_csv\<close> with the reason the operating system gives. The script has no \<open>try\<close>: whatever is
  raised reaches the caller.
\<close>

datatype os_errno = ENOENT | EACCES | ENOSPC

datatype py_error = ValueError | OverflowError | OSError os_errno

text \<open>
  A finite float64 is a rational number, so the \<open>float64\<close> columns are modelled as
  \<open>rat\<close> and every float operation as the exact operation followed by rounding to the nearest
  double, ties to even (\<open>fl\<close>). The significand has 53 bits; the exponent range is not
  bounded, which differs from IEEE 754 only below \<open>2^-1022\<close> and above \<open>2^1024\<close>, far from
  the values of this program (all between 1 and 50000).

  \<open>rint\<close> is C's \<open>rint\<close> in the default rounding mode: the nearest integer, ties to even.
  \<open>base_length b n\<close> is the number of digits of a positive integer \<open>n\<close> in base \<open>b\<close>
  (Python's \<open>int.bit_length\<close> for \<open>b = 2\<close>), \<open>expo x\<close> the binary exponent
  \<open>\<lfloor>log\<^sub>2 x\<rfloor>\<close> of a positive \<open>x\<close>, and \<open>ulp x\<close> the spacing of the doubles in the binade
  of \<open>x\<close>.
\<close>

definition rint :: "rat \<Rightarrow> int" where
  "rint x = (let f = \<lfloor>x\<rfloor>; r = x - of_int f
             in if r < 1 / 2 then f else if 1 / 2 < r then f + 1
                else if even f then f else f + 1)"

function base_length :: "int \<Rightarrow> int \<Rightarrow> int" where
  "base_length b n = (if n \<le> 0 \<or> b \<le> 1 then 0 else 1 + base_length b (n div b))"
  by pat_completeness auto
termination
proof (relation "measure (\<lambda>(b, n). nat n)")
  show "wf (measure (\<lambda>(b, n). nat n))" by simp
next
  fix b n :: int
  assume "\<not> (n \<le> 0 \<or> b \<le> 1)"
  then have "0 < n" and "1 < b" by simp_all
  then have "n div b < n" by (simp add: int_div_less_self)
  then show "((b, n div b), (b, n)) \<in> measure (\<lambda>(b, n). nat n)"
    using \<open>0 < n\<close> by simp
qed

declare base_length.simps [simp del]

definition expo :: "rat \<Rightarrow> int" where
  "expo x = (if 1 \<le> x then base_length 2 \<lfloor>x\<rfloor> - 1 else - base_length 2 (\<lceil>1 / x\<rceil> - 1))"

definition ulp :: "rat \<Rightarrow> rat" where
  "ulp x = power_int 2 (expo \<bar>x\<bar> - 52)"

definition fl :: "rat \<Rightarrow> rat" where
  "fl x = (if x = 0 then 0 else of_int (rint (x / ulp x)) * ulp x)"

text \<open>
  \<open>np.round(a, decimals)\<close> for a positive number of decimals: numpy multiplies by
  \<open>10 ** decimals\<close>, applies \<open>rint\<close> and divides again, each step in float64.
  \<open>float_mul\<close> is the float64 product of two doubles. In
  \<open>df['product_price'] * df['quantity']\<close> pandas converts the \<open>int64\<close> operand to float64
  first; \<open>mul_columns\<close> below writes that conversion as \<open>fl (of_int q)\<close>.
\<close>

definition np_round :: "rat \<Rightarrow> nat \<Rightarrow> rat" where
  "np_round x decimals = fl (of_int (rint (fl (x * 10 ^ decimals))) / 10 ^ decimals)"

definition float_mul :: "rat \<Rightarrow> rat \<Rightarrow> rat" where
  "float_mul x y = fl (x * y)"

text \<open>
  \<open>str\<close> of a Python integer, and left padding with zeros.
\<close>

definition digit_char :: "nat \<Rightarrow> char" where
  "digit_char d = ''0123456789'' ! d"

function str_digits :: "int \<Rightarrow> string" where
  "str_digits n = (if n < 10 then [digit_char (nat n)]
                   else str_digits (n div 10) @ [digit_char (nat (n mod 10))])"
  by pat_completeness auto
termination
  by (relation "measure nat") auto

declare str_digits.simps [simp del]

definition str_int :: "int \<Rightarrow> string" where
  "str_int i = (if i < 0 then CHR ''-'' # str_digits (- i) else str_digits i)"

definition zfill :: "nat \<Rightarrow> string \<Rightarrow> string" where
  "zfill w s = replicate (w - length s) (CHR ''0'') @ s"

text \<open>
  The text of a float64 as \<open>to_csv\<close> writes it when no \<open>float_format\<close> is given: the
  shortest decimal that reads back as the same double (what \<open>repr\<close> prints), in positional
  notation with at least one fractional digit between \<open>1e-4\<close> and \<open>1e16\<close>, in scientific
  notation outside. \<open>digits_at x d\<close> looks for a decimal with \<open>d\<close> significant digits that
  rounds to \<open>x\<close>, among the two that enclose \<open>x\<close>, and takes the nearer one, the even one
  when \<open>x\<close> lies halfway; \<open>shortest_digits\<close> tries 1 to 16 digits, falls back on the 17
  digits that always suffice, and drops the zeros at the end of the digits found
  (\<open>strip_zeros\<close>). The result \<open>(m, k)\<close> stands for \<open>m * 10^k\<close>.
\<close>

definition ilog10 :: "rat \<Rightarrow> int" where
  "ilog10 x = (if 1 \<le> x then base_length 10 \<lfloor>x\<rfloor> - 1
               else - base_length 10 (\<lceil>1 / x\<rceil> - 1))"

definition digits_at :: "rat \<Rightarrow> nat \<Rightarrow> (int \<times> int) option" where
  "digits_at x d =
     (let k = ilog10 x - int d + 1; s = power_int 10 k;
          lo = \<lfloor>x / s\<rfloor>; hi = lo + 1;
          oklo = (fl (of_int lo * s) = x); okhi = (fl (of_int hi * s) = x)
      in if oklo \<and> okhi then
           (if x - of_int lo * s < of_int hi * s - x then Some (lo, k)
            else if of_int hi * s - x < x - of_int lo * s then Some (hi, k)
            else if even lo then Some (lo, k) else Some (hi, k))
         else if oklo then Some (lo, k)
         else if okhi then Some (hi, k)
         else None)"

fun shortest_from :: "rat \<Rightarrow> nat \<Rightarrow> nat \<Rightarrow> int \<times> int" where
  "shortest_from x d 0 =
     (let k = ilog10 x - int d + 1 in (rint (x / power_int 10 k), k))"
| "shortest_from x d (Suc fuel) =
     (case digits_at x d of Some r \<Rightarrow> r | None \<Rightarrow> shortest_from x (Suc d) fuel)"

function strip_zeros :: "int \<Rightarrow> int \<Rightarrow> int \<times> int" where
  "strip_zeros m k =
     (if m \<noteq> 0 \<and> m mod 10 = 0 then strip_zeros (m div 10) (k + 1) else (m, k))"
  by pat_completeness auto
termination
proof (relation "measure (\<lambda>(m, k). nat \<bar>m\<bar>)")
  show "wf (measure (\<lambda>(m, k). nat \<bar>m\<bar>))" by simp
next
  fix m k :: int
  assume a: "m \<noteq> 0 \<and> m mod 10 = 0"
  have e: "10 * (m div 10) = m" using a mult_div_mod_eq [of 10 m] by simp
  then have "m div 10 \<noteq> 0" using a by auto
  moreover have "\<bar>m\<bar> = 10 * \<bar>m div 10\<bar>" by (subst e [symmetric]) (simp add: abs_mult)
  ultimately have "\<bar>m div 10\<bar> < \<bar>m\<bar>" by linarith
  then show "((m div 10, k + 1), (m, k)) \<in> measure (\<lambda>(m, k). nat \<bar>m\<bar>)" by simp
qed

declare strip_zeros.simps [simp del]

definition shortest_digits :: "rat \<Rightarrow> int \<times> int" where
  "shortest_digits x = (let (m, k) = shortest_from x 1 16 in strip_zeros m k)"

definition positional :: "int \<Rightarrow> int \<Rightarrow> string" where
  "positional m k =
     (if 0 \<le> k then str_digits (m * 10 ^ nat k) @ ''.0''
      else let p = 10 ^ nat (- k)
           in str_digits (m div p) @ ''.'' @ zfill (nat (- k)) (str_digits (m mod p)))"

definition scientific :: "int \<Rightarrow> int \<Rightarrow> string" where
  "scientific m k =
     (let ds = str_digits m; e = int (length ds) - 1 + k
      in [hd ds] @ (if tl ds = [] then [] else ''.'' @ tl ds) @ ''e''
         @ (if e < 0 then ''-'' else ''+'') @ zfill 2 (str_digits \<bar>e\<bar>))"

definition float_str_pos :: "rat \<Rightarrow> string" where
  "float_str_pos x =
     (let (m, k) = shortest_digits x
      in if 1 / 10 ^ 4 \<le> x \<and> x < 10 ^ 16 then positional m k else scientific m k)"

definition float_str :: "rat \<Rightarrow> string" where
  "float_str x = (if x = 0 then ''0.0'' else if x < 0 then CHR ''-'' # float_str_pos (- x)
                  else float_str_pos x)"



text \<open>
  \<open>datetime\<close> values at midnight, as the script builds them: year, month and day. The
  arithmetic is CPython's: \<open>d + timedelta(days=k)\<close> converts \<open>d\<close> to its proleptic Gregorian
  ordinal (\<open>_ymd2ord\<close>), adds \<open>k\<close>, checks the range and converts back (\<open>_ord2ymd\<close>).
  Comparison is that of the tuples (year, month, day), and \<open>date_str\<close> is the form
  \<open>%Y-%m-%d\<close> that pandas writes for a datetime column whose times are all midnight.
\<close>

record datetime =
  year :: int
  month :: int
  day :: int

definition is_leap :: "int \<Rightarrow> bool" where
  "is_leap y = (y mod 4 = 0 \<and> (y mod 100 \<noteq> 0 \<or> y mod 400 = 0))"

definition DAYS_IN_MONTH :: "int list" where
  "DAYS_IN_MONTH = [-1, 31, 28, 31, 30, 31, 30, 31, 31, 30, 31, 30, 31]"

definition DAYS_BEFORE_MONTH :: "int list" where
  "DAYS_BEFORE_MONTH = [-1, 0, 31, 59, 90, 120, 151, 181, 212, 243, 273, 304, 334]"

definition days_before_year :: "int \<Rightarrow> int" where
  "days_before_year y = (y - 1) * 365 + (y - 1) div 4 - (y - 1) div 100 + (y - 1) div 400"

definition days_before_month :: "int \<Rightarrow> int \<Rightarrow> int" where
  "days_before_month y m = DAYS_BEFORE_MONTH ! nat m + (if 2 < m \<and> is_leap y then 1 else 0)"

definition ymd2ord :: "int \<Rightarrow> int \<Rightarrow> int \<Rightarrow> int" where
  "ymd2ord y m d = days_before_year y + days_before_month y m + d"

definition ord2ymd :: "int \<Rightarrow> datetime" where
  "ord2ymd ordinal =
     (let n = ordinal - 1;
          n400 = n div 146097; n = n mod 146097;
          n100 = n div 36524; n = n mod 36524;
          n4 = n div 1461; n = n mod 1461;
          n1 = n div 365; n = n mod 365;
          y = n400 * 400 + 1 + n100 * 100 + n4 * 4 + n1
      in if n1 = 4 \<or> n100 = 4 then \<lparr>year = y - 1, month = 12, day = 31\<rparr>
         else
           let leapyear = (n1 = 3 \<and> (n4 \<noteq> 24 \<or> n100 = 3));
               m = (n + 50) div 32;
               preceding = DAYS_BEFORE_MONTH ! nat m + (if 2 < m \<and> leapyear then 1 else 0)
           in if n < preceding then
                let m' = m - 1;
                    preceding' = preceding
                      - (DAYS_IN_MONTH ! nat m' + (if m' = 2 \<and> leapyear then 1 else 0))
                in \<lparr>year = y, month = m', day = n - preceding' + 1\<rparr>
              else \<lparr>year = y, month = m, day = n - preceding + 1\<rparr>)"

definition toordinal :: "datetime \<Rightarrow> int" where
  "toordinal d = ymd2ord (year d) (month d) (day d)"

definition MAXORDINAL :: int where
  "MAXORDINAL = 3652059"

definition add_days :: "datetime \<Rightarrow> int \<Rightarrow> py_error + datetime" where
  "add_days d k =
     (let days = toordinal d + k
      in if 0 < days \<and> days \<le> MAXORDINAL then Inr (ord2ymd days) else Inl OverflowError)"

definition datetime_le :: "datetime \<Rightarrow> datetime \<Rightarrow> bool" where
  "datetime_le a b =
     (year a < year b \<or> (year a = year b \<and>
        (month a < month b \<or> (month a = month b \<and> day a \<le> day b))))"

definition date_str :: "datetime \<Rightarrow> string" where
  "date_str d = zfill 4 (str_int (year d)) @ ''-'' @ zfill 2 (str_int (month d)) @ ''-''
                @ zfill 2 (str_int (day d))"

definition start_date :: datetime where
  "start_date = \<lparr>year = 2022, month = 1, day = 1\<rparr>"



text \<open>
  The legacy global generator of \<open>numpy.random\<close>. Its algorithm (the Mersenne Twister and
  the sampling routines on top of it) is not part of the repository, so it is a parameter:
  a record with the state transformer of \<open>np.random.seed\<close> and one draw of
  \<open>randint(low, high)\<close>, \<open>uniform(low, high)\<close> and \<open>choice(a)\<close>, each taking the generator
  state and returning the value with the next state. \<open>rng_contract\<close> is what numpy
  documents of them: seeding replaces the state whatever it was, \<open>randint\<close> and
  \<open>uniform\<close> return a value in the half-open interval \<open>[low, high)\<close>, \<open>choice\<close> returns an
  element of a non-empty list.
\<close>

record 's np_random =
  np_seed :: "nat \<Rightarrow> 's \<Rightarrow> 's"
  np_randint :: "int \<Rightarrow> int \<Rightarrow> 's \<Rightarrow> int \<times> 's"
  np_uniform :: "rat \<Rightarrow> rat \<Rightarrow> 's \<Rightarrow> rat \<times> 's"
  np_choice :: "string list \<Rightarrow> 's \<Rightarrow> string \<times> 's"

definition rng_contract :: "'s np_random \<Rightarrow> bool" where
  "rng_contract np =
     ((\<forall>x s s'. np_seed np x s = np_seed np x s')
    \<and> (\<forall>lo hi s. lo < hi \<longrightarrow> lo \<le> fst (np_randint np lo hi s) \<and> fst (np_randint np lo hi s) < hi)
    \<and> (\<forall>lo hi s. lo < hi \<longrightarrow> lo \<le> fst (np_uniform np lo hi s) \<and> fst (np_uniform np lo hi s) < hi)
    \<and> (\<forall>xs s. xs \<noteq> [] \<longrightarrow> fst (np_choice np xs s) \<in> set xs))"

text \<open>
  A call with a size, \<open>np.random.randint(low, high, n)\<close>, is \<open>n\<close> draws in sequence, and
  raises \<open>ValueError\<close> ("negative dimensions are not allowed") when \<open>n\<close> is negative.
  \<open>dates_loop\<close> is the list comprehension of the script,
  \<open>[start_date + timedelta(days=np.random.randint(0, 730)) for _ in range(n)]\<close>, one scalar
  draw per element.
\<close>

fun draws :: "('s \<Rightarrow> 'a \<times> 's) \<Rightarrow> nat \<Rightarrow> 's \<Rightarrow> 'a list \<times> 's" where
  "draws f 0 s = ([], s)"
| "draws f (Suc k) s =
     (let (x, s1) = f s; (xs, s2) = draws f k s1 in (x # xs, s2))"

definition sized :: "('s \<Rightarrow> 'a \<times> 's) \<Rightarrow> int \<Rightarrow> 's \<Rightarrow> py_error + 'a list \<times> 's" where
  "sized f n s = (if n < 0 then Inl ValueError else Inr (draws f (nat n) s))"

fun dates_loop :: "'s np_random \<Rightarrow> nat \<Rightarrow> 's \<Rightarrow> py_error + datetime list \<times> 's" where
  "dates_loop np 0 s = Inr ([], s)"
| "dates_loop np (Suc k) s =
     (let (off, s1) = np_randint np 0 730 s
      in case add_days start_date off of
           Inl e \<Rightarrow> Inl e
         | Inr d \<Rightarrow>
             (case dates_loop np k s1 of
                Inl e \<Rightarrow> Inl e
              | Inr (ds, s2) \<Rightarrow> Inr (d # ds, s2)))"

text \<open>
  The three literal lists that \<open>np.random.choice\<close> draws from.
\<close>

definition categories :: "string list" where
  "categories = [''Electronics'', ''Fashion'', ''Home'', ''Sports'', ''Books'']"

definition payment_methods :: "string list" where
  "payment_methods = [''Credit Card'', ''PayPal'', ''Bank Transfer'', ''Cash'']"

definition countries :: "string list" where
  "countries = [''Germany'', ''Austria'', ''Switzerland'', ''Netherlands'', ''Belgium'']"

text \<open>
  \<open>data\<close> is the dictionary of the eight base columns. \<open>pd.DataFrame(data)\<close> raises
  \<open>ValueError\<close> unless all columns have one length, and otherwise holds one row per index.
  \<open>df['total'] = df['product_price'] * df['quantity']\<close> multiplies the two columns element by
  element (\<open>mul_columns\<close>) and stores the result as the ninth column (\<open>set_total\<close>).
\<close>

record columns =
  col_transaction_id :: "int list"
  col_customer_id :: "int list"
  col_product_category :: "string list"
  col_product_price :: "rat list"
  col_quantity :: "int list"
  col_date :: "datetime list"
  col_payment_method :: "string list"
  col_country :: "string list"

record base_row =
  transaction_id :: int
  customer_id :: int
  product_category :: string
  product_price :: rat
  quantity :: int
  date :: datetime
  payment_method :: string
  country :: string

record row = base_row +
  total :: rat

definition DataFrame :: "columns \<Rightarrow> py_error + base_row list" where
  "DataFrame d =
     (let n = length (col_transaction_id d)
      in if length (col_customer_id d) = n \<and> length (col_product_category d) = n
            \<and> length (col_product_price d) = n \<and> length (col_quantity d) = n
            \<and> length (col_date d) = n \<and> length (col_payment_method d) = n
            \<and> length (col_country d) = n
         then Inr (map (\<lambda>i. \<lparr>transaction_id = col_transaction_id d ! i,
                               customer_id = col_customer_id d ! i,
                               product_category = col_product_category d ! i,
                               product_price = col_product_price d ! i,
                               quantity = col_quantity d ! i,
                               date = col_date d ! i,
                               payment_method = col_payment_method d ! i,
                               country = col_country d ! i\<rparr>) [0..<n])
         else Inl ValueError)"

definition mul_columns :: "rat list \<Rightarrow> int list \<Rightarrow> rat list" where
  "mul_columns ps qs = map2 (\<lambda>p q. float_mul p (fl (of_int q))) ps qs"

definition set_total :: "base_row list \<Rightarrow> rat list \<Rightarrow> row list" where
  "set_total df ts =
     map2 (\<lambda>r t. \<lparr>transaction_id = transaction_id r, customer_id = customer_id r,
                   product_category = product_category r, product_price = product_price r,
                   quantity = quantity r, date = date r, payment_method = payment_method r,
                   country = country r, total = t\<rparr>) df ts"

text \<open>
  The script up to the dictionary: seed the generator, build the dates, then the columns in
  the order of the dictionary literal, threading the generator state. \<open>seed\<close> and \<open>n\<close> are
  the literals \<open>42\<close> and \<open>5_000_000\<close> of the script, taken as parameters; \<open>s_init\<close> is the
  state of the global generator when the script starts.
\<close>

definition synthesize :: "'s np_random \<Rightarrow> nat \<Rightarrow> int \<Rightarrow> 's \<Rightarrow> py_error + columns" where
  "synthesize np seed n s_init =
     (let s0 = np_seed np seed s_init
      in case dates_loop np (length (range_py n)) s0 of
           Inl e \<Rightarrow> Inl e
         | Inr (dates, s1) \<Rightarrow>
      (case sized (np_randint np 1000 50000) n s1 of
           Inl e \<Rightarrow> Inl e
         | Inr (customer_ids, s2) \<Rightarrow>
      (case sized (np_choice np categories) n s2 of
           Inl e \<Rightarrow> Inl e
         | Inr (cats, s3) \<Rightarrow>
      (case sized (np_uniform np 5 500) n s3 of
           Inl e \<Rightarrow> Inl e
         | Inr (us, s4) \<Rightarrow>
      (case sized (np_randint np 1 10) n s4 of
           Inl e \<Rightarrow> Inl e
         | Inr (quantities, s5) \<Rightarrow>
      (case sized (np_choice np payment_methods) n s5 of
           Inl e \<Rightarrow> Inl e
         | Inr (pays, s6) \<Rightarrow>
      (case sized (np_choice np countries) n s6 of
           Inl e \<Rightarrow> Inl e
         | Inr (ctrs, s7) \<Rightarrow>
             Inr \<lparr>col_transaction_id = [1..n],
                  col_customer_id = customer_ids,
                  col_product_category = cats,
                  col_product_price = map (\<lambda>u. np_round u 2) us,
                  col_quantity = quantities,
                  col_date = dates,
                  col_payment_method = pays,
                  col_country = ctrs\<rparr>)))))))"

definition generate :: "'s np_random \<Rightarrow> nat \<Rightarrow> int \<Rightarrow> 's \<Rightarrow> py_error + row list" where
  "generate np seed n s_init =
     (case synthesize np seed n s_init of
        Inl e \<Rightarrow> Inl e
      | Inr data \<Rightarrow>
          (case DataFrame data of
             Inl e \<Rightarrow> Inl e
           | Inr df \<Rightarrow>
               Inr (set_total df (mul_columns (map product_price df) (map quantity df)))))"

text \<open>
  \<open>df.to_csv(path, index=False)\<close>: a header line with the column names, then one line per
  row, fields separated by commas and every line ended by a newline. The writer quotes a
  field (doubling the quotes inside) only if it contains a comma, a quote or the line
  terminator, which is the newline.
\<close>

definition csv_columns :: "string list" where
  "csv_columns = [''transaction_id'', ''customer_id'', ''product_category'', ''product_price'',
                  ''quantity'', ''date'', ''payment_method'', ''country'', ''total'']"

definition needs_quoting :: "string \<Rightarrow> bool" where
  "needs_quoting s = (\<exists>c \<in> set s. c \<in> set [CHR '','', CHR 0x22, CHR 0x0A])"

definition csv_field :: "string \<Rightarrow> string" where
  "csv_field s =
     (if needs_quoting s
      then [CHR 0x22] @ concat (map (\<lambda>c. if c = CHR 0x22 then [c, c] else [c]) s) @ [CHR 0x22]
      else s)"

fun join :: "string \<Rightarrow> string list \<Rightarrow> string" where
  "join sep [] = []"
| "join sep [x] = x"
| "join sep (x # y # ys) = x @ sep @ join sep (y # ys)"

definition csv_line :: "string list \<Rightarrow> string" where
  "csv_line cells = join '','' (map csv_field cells) @ [CHR 0x0A]"

definition row_fields :: "row \<Rightarrow> string list" where
  "row_fields r =
     [str_int (transaction_id r), str_int (customer_id r), product_category r,
      float_str (product_price r), str_int (quantity r), date_str (date r),
      payment_method r, country r, float_str (total r)]"

definition csv_text :: "row list \<Rightarrow> string" where
  "csv_text df = concat (map csv_line (csv_columns # map row_fields df))"






text \<open>
  The part of the file system the script touches: the files with their contents, the
  existing directories, the files and directories the process may not write to, the free
  space in bytes and the paths \<open>open\<close> was called with (newest first). \<open>to_csv\<close> refuses a
  path whose directory does not exist before opening anything; otherwise it opens the path
  for writing. Opening an existing file needs the right to write to that file and
  truncates it, which gives its bytes back to the free space; opening a new file needs the
  right to write to its directory and creates it. Then the text is written. When the disk
  fills up the bytes written so far stay in the file: the script writes to the target
  itself and removes nothing on failure.
\<close>

record filesystem =
  files :: "string \<rightharpoonup> string"
  dirs :: "string set"
  read_only :: "string set"
  free_bytes :: nat
  open_calls :: "string list"

definition dirname :: "string \<Rightarrow> string" where
  "dirname p =
     (if CHR ''/'' \<in> set p
      then (let d = rev (tl (dropWhile (\<lambda>c. c \<noteq> CHR ''/'') (rev p)))
            in if d = [] then ''/'' else d)
      else ''.'')"

definition to_csv :: "row list \<Rightarrow> string \<Rightarrow> filesystem \<Rightarrow> (py_error + unit) \<times> filesystem" where
  "to_csv df path disk =
     (if dirname path \<notin> dirs disk then (Inl (OSError ENOENT), disk)
      else
        let disk1 = disk\<lparr>open_calls := path # open_calls disk\<rparr>
        in if (case files disk1 path of
                 Some old \<Rightarrow> path \<in> read_only disk1
               | None \<Rightarrow> dirname path \<in> read_only disk1)
           then (Inl (OSError EACCES), disk1)
           else
             let text = csv_text df;
                 room = free_bytes disk1
                   + (case files disk1 path of Some old \<Rightarrow> length old | None \<Rightarrow> 0)
             in if length text \<le> room
                then (Inr (), disk1\<lparr>files := (files disk1)(path \<mapsto> text),
                                     free_bytes := room - length text\<rparr>)
                else (Inl (OSError ENOSPC),
                      disk1\<lparr>files := (files disk1)(path \<mapsto> take room text),
                             free_bytes := 0\<rparr>))"

text \<open>
  The whole script: generate the frame, write it. An exception from the generation leaves
  the file system as it was. \<open>run\<close> takes the seed, the row count and the target path as
  parameters; \<open>main\<close> is the script with its literals. The \<open>print\<close> calls are left out.
\<close>

definition run :: "'s np_random \<Rightarrow> nat \<Rightarrow> int \<Rightarrow> string \<Rightarrow> 's \<Rightarrow> filesystem
                   \<Rightarrow> (py_error + unit) \<times> filesystem" where
  "run np seed n path s_init disk =
     (case generate np seed n s_init of
        Inl e \<Rightarrow> (Inl e, disk)
      | Inr df \<Rightarrow> to_csv df path disk)"

definition main :: "'s np_random \<Rightarrow> 's \<Rightarrow> filesystem \<Rightarrow> (py_error + unit) \<times> filesystem" where
  "main np s_init disk = run np 42 5000000 ''ecommerce_5m.csv'' s_init disk"

text \<open>
  A generator that replays a recorded list of draws, reduced into the requested range, and a
  disk with an existing current directory and nothing else: the inputs of the examples
  below.
\<close>

definition scripted :: "rat list \<Rightarrow> rat list np_random" where
  "scripted script =
     \<lparr>np_seed = (\<lambda>seed s. script),
      np_randint = (\<lambda>lo hi s. case s of [] \<Rightarrow> (lo, []) | x # r \<Rightarrow> (lo + (\<lfloor>x\<rfloor> - lo) mod (hi - lo), r)),
      np_uniform = (\<lambda>lo hi s. case s of [] \<Rightarrow> (lo, []) | x # r \<Rightarrow> (if lo \<le> x \<and> x < hi then x else lo, r)),
      np_choice = (\<lambda>xs s. case s of [] \<Rightarrow> (hd xs, []) | x # r \<Rightarrow> (xs ! (nat \<lfloor>x\<rfloor> mod length xs), r))\<rparr>"

definition empty_disk :: filesystem where
  "empty_disk = \<lparr>files = Map.empty, dirs = {''.''}, read_only = {}, free_bytes = 1000000, open_calls = []\<rparr>"

section \<open>Facts about the theming module\<close>

subsection \<open>Facts about the palette\<close>

lemma length_COLOR_CYCLE: "length COLOR_CYCLE = 10"
  by (simp add: COLOR_CYCLE_def)

lemma COLOR_CYCLE_hex: "list_all is_hex_color COLOR_CYCLE"
  by (simp add: COLOR_CYCLE_def is_hex_color_def is_hex_digit_def)

lemma water_palette_list:
  "drop_index 5 COLOR_CYCLE =
     [''#7BA898'', ''#8EC4D4'', ''#4A7088'', ''#CCA361'', ''#8FBA70'',
      ''#6BA8B0'', ''#D4A868'', ''#5A9A78'', ''#7AA0B0'']"
  by (simp add: drop_index_def enumerate_py_def COLOR_CYCLE_def upt_rec [of _ 10]
      upt_rec [of _ 9] upt_rec [of _ 8] upt_rec [of _ 7] upt_rec [of _ 6] upt_rec [of _ 5]
      upt_rec [of _ 4] upt_rec [of _ 3] upt_rec [of _ 2] upt_rec [of _ 1])

lemma get_palette_accent_nth:
  assumes "0 \<le> n" and "i < nat n"
  shows "get_palette (Some n) True ! i = COLOR_CYCLE ! (i mod 10)"
  using assms by (simp add: get_palette_def range_py_def length_COLOR_CYCLE)

lemma get_palette_accent_length: "length (get_palette (Some n) True) = nat n"
  by (simp add: get_palette_def range_py_def)

lemma get_palette_accent_hex:
  "list_all is_hex_color (get_palette (Some n) True)"
proof -
  have "is_hex_color (COLOR_CYCLE ! (i mod 10))" for i
  proof -
    have "i mod 10 < length COLOR_CYCLE" by (simp add: length_COLOR_CYCLE)
    then show ?thesis
      using COLOR_CYCLE_hex by (simp add: list_all_length)
  qed
  then show ?thesis
    by (simp add: get_palette_def range_py_def length_COLOR_CYCLE list_all_iff)
qed

lemma get_palette_5: "get_palette (Some 5) True = take 5 COLOR_CYCLE"
  by (simp add: get_palette_def range_py_def COLOR_CYCLE_def upt_rec [of _ 5]
      upt_rec [of _ 4] upt_rec [of _ 3] upt_rec [of _ 2] upt_rec [of _ 1])

lemma get_palette_15_cycles:
  assumes "j < 5"
  shows "get_palette (Some 15) True ! (10 + j) = get_palette (Some 15) True ! j"
proof -
  have "get_palette (Some 15) True ! (10 + j) = COLOR_CYCLE ! ((10 + j) mod 10)"
    using assms by (intro get_palette_accent_nth) simp_all
  also have "(10 + j) mod 10 = j mod 10" by simp
  also have "COLOR_CYCLE ! (j mod 10) = get_palette (Some 15) True ! j"
    using assms by (intro get_palette_accent_nth [symmetric]) simp_all
  finally show ?thesis .
qed

text \<open>
  Claim C9. For every non-negative \<open>n\<close>, \<open>get_palette(n)\<close> (with the default
  \<open>include_accent=True\<close>) returns exactly \<open>n\<close> hex colour strings, the entry at position
  \<open>i\<close> being entry \<open>i mod 10\<close> of the base cycle, so the cycle is followed in order and
  restarted from its beginning once it is exhausted. In particular \<open>get_palette(5)\<close> is
  the first five entries of the cycle, and in \<open>get_palette(15)\<close> the entries 11 to 15
  repeat the entries 1 to 5.
\<close>

theorem get_palette_cycles:
  assumes "0 \<le> n"
  shows "int (length (get_palette (Some n) True)) = n
       \<and> list_all is_hex_color (get_palette (Some n) True)
       \<and> (\<forall>i < nat n. get_palette (Some n) True ! i = COLOR_CYCLE ! (i mod length COLOR_CYCLE))
       \<and> get_palette (Some 5) True = take 5 COLOR_CYCLE
       \<and> (\<forall>j < 5. get_palette (Some 15) True ! (10 + j) = get_palette (Some 15) True ! j)"
  using assms
  by (simp add: get_palette_accent_length get_palette_accent_hex get_palette_accent_nth
      get_palette_5 get_palette_15_cycles length_COLOR_CYCLE)

theorem get_palette_cycles_witness:
  "(0::int) \<le> 12
   \<and> int (length (get_palette (Some 12) True)) = 12
   \<and> get_palette (Some 12) True ! 11 = ''#8EC4D4''
   \<and> get_palette (Some 5) True = [''#7BA898'', ''#8EC4D4'', ''#4A7088'', ''#CCA361'', ''#8FBA70'']"
proof -
  have h: "(0::int) \<le> 12" by simp
  have "(11::nat) < nat 12" by simp
  with get_palette_cycles [OF h]
  have "int (length (get_palette (Some 12) True)) = 12"
    and "get_palette (Some 12) True ! 11 = COLOR_CYCLE ! (11 mod length COLOR_CYCLE)"
    and "get_palette (Some 5) True = take 5 COLOR_CYCLE"
    by blast+
  then show ?thesis
    by (simp add: COLOR_CYCLE_def)
qed

text \<open>
  Claim C10. For every \<open>n \<ge> 4\<close>, the palette returned with \<open>include_accent=False\<close>, and so
  the one returned by \<open>get_water_palette\<close>, still contains the gold accent \<open>#CCA361\<close>: the
  branch drops index 5 of the cycle, which is the dark green \<open>#4A7858\<close>, while the gold
  sits at index 3. The dark green is the colour that never appears.
\<close>

theorem water_palette_keeps_gold:
  assumes "4 \<le> n"
  shows "''#CCA361'' \<in> set (get_palette (Some n) False)
       \<and> ''#CCA361'' \<in> set (get_water_palette (Some n))
       \<and> COLOR_CYCLE ! 3 = ''#CCA361'' \<and> COLOR_CYCLE ! 5 = ''#4A7858''
       \<and> ''#4A7858'' \<notin> set (get_palette (Some n) False)"
proof -
  let ?w = "drop_index 5 COLOR_CYCLE"
  have len: "length ?w = 9" by (simp add: water_palette_list)
  have pal: "get_palette (Some n) False = map (\<lambda>i. ?w ! (i mod 9)) [0..<nat n]"
    by (simp add: get_palette_def range_py_def len)
  have "(3::nat) \<in> set [0..<nat n]" using assms by simp
  then have "(\<lambda>i. ?w ! (i mod 9)) 3 \<in> (\<lambda>i. ?w ! (i mod 9)) ` set [0..<nat n]"
    by (rule imageI)
  then have "?w ! (3 mod 9) \<in> set (get_palette (Some n) False)"
    unfolding pal set_map .
  moreover have "?w ! (3 mod 9) = ''#CCA361''" by (simp add: water_palette_list)
  ultimately have gold: "''#CCA361'' \<in> set (get_palette (Some n) False)" by simp
  have "set (get_palette (Some n) False) \<subseteq> set ?w"
  proof
    fix c assume "c \<in> set (get_palette (Some n) False)"
    then obtain i where "c = ?w ! (i mod 9)" unfolding pal by auto
    moreover have "i mod 9 < length ?w" by (simp add: len)
    ultimately show "c \<in> set ?w" by (metis nth_mem)
  qed
  moreover have "''#4A7858'' \<notin> set ?w" by (simp add: water_palette_list)
  ultimately have green: "''#4A7858'' \<notin> set (get_palette (Some n) False)" by blast
  show ?thesis
    using gold green by (simp add: get_water_palette_def COLOR_CYCLE_def)
qed

theorem water_palette_keeps_gold_witness:
  "(4::int) \<le> 4 \<and> ''#CCA361'' \<in> set (get_water_palette (Some 4))
   \<and> get_water_palette (Some 4) = [''#7BA898'', ''#8EC4D4'', ''#4A7088'', ''#CCA361'']"
proof -
  have h: "(4::int) \<le> 4" by simp
  have "get_water_palette (Some 4) = [''#7BA898'', ''#8EC4D4'', ''#4A7088'', ''#CCA361'']"
    by (simp add: get_water_palette_def get_palette_def range_py_def water_palette_list
        upt_rec [of _ 4] upt_rec [of _ 3] upt_rec [of _ 2] upt_rec [of _ 1])
  with water_palette_keeps_gold [OF h] show ?thesis by simp
qed

section \<open>Facts about the generator\<close>

subsection \<open>Rounding to the nearest double\<close>

text \<open>
  \<open>rint\<close> is monotone on the integers and at most one half away from its argument;
  \<open>base_length\<close> brackets its argument between two powers of the base. From these, \<open>fl\<close>
  moves a number of at least 1 by at most the fraction \<open>2^-53\<close> of itself, and never across
  an integer while the doubles are spaced by at most 1.
\<close>

lemma rint_of_int: "rint (of_int k) = k"
  by (simp add: rint_def)

lemma rint_cases:
  "rint x = \<lfloor>x\<rfloor> \<or> rint x = \<lfloor>x\<rfloor> + 1"
  by (simp add: rint_def Let_def)

lemma rint_error: "\<bar>of_int (rint x) - x\<bar> \<le> 1 / 2"
proof -
  have "of_int \<lfloor>x\<rfloor> \<le> x" "x < of_int \<lfloor>x\<rfloor> + 1" by linarith+
  then show ?thesis
    by (auto simp: rint_def Let_def abs_le_iff)
qed

lemma rint_ge_int:
  assumes "of_int a \<le> x"
  shows "a \<le> rint x"
proof -
  have "a \<le> \<lfloor>x\<rfloor>" using assms by (simp add: le_floor_iff)
  then show ?thesis using rint_cases [of x] by linarith
qed

lemma rint_le_int:
  assumes "x \<le> of_int b"
  shows "rint x \<le> b"
proof (cases "x = of_int b")
  case True
  then show ?thesis by (simp add: rint_of_int)
next
  case False
  with assms have "x < of_int b" by simp
  then have "\<lfloor>x\<rfloor> < b" by (simp add: floor_less_iff)
  then show ?thesis using rint_cases [of x] by linarith
qed

lemma base_length_nonneg: "0 \<le> base_length b n"
proof (induction b n rule: base_length.induct)
  case (1 b n)
  then show ?case by (subst base_length.simps) auto
qed

lemma base_length_pos: "0 < n \<Longrightarrow> 1 < b \<Longrightarrow> 1 \<le> base_length b n"
  using base_length_nonneg [of b "n div b"] by (subst base_length.simps) simp

lemma int_div_mod_bounds:
  fixes n b :: int
  assumes "0 < b"
  shows "b * (n div b) \<le> n" and "n < b * (n div b + 1)"
proof -
  have eq: "b * (n div b) = n - n mod b"
    by (simp add: minus_mod_eq_mult_div [symmetric])
  have m: "0 \<le> n mod b" "n mod b < b" using assms by simp_all
  show "b * (n div b) \<le> n" unfolding eq using m by simp
  show "n < b * (n div b + 1)" unfolding distrib_left eq using m by simp
qed

lemma base_length_step:
  "0 < n \<Longrightarrow> 1 < b \<Longrightarrow> base_length b n = 1 + base_length b (n div b)"
  by (subst base_length.simps) simp

lemma base_length_bounds:
  assumes "0 < n" and "1 < b"
  shows "b ^ nat (base_length b n - 1) \<le> n \<and> n < b ^ nat (base_length b n)"
  using assms
proof (induction b n rule: base_length.induct)
  case (1 b n)
  have b: "0 < b" using 1 by simp
  have len: "base_length b n = 1 + base_length b (n div b)"
    using 1 by (simp add: base_length_step)
  show ?case
  proof (cases "n div b \<le> 0")
    case True
    then have "base_length b (n div b) = 0" by (subst base_length.simps) simp
    moreover have "n < b"
    proof -
      have "b * (n div b + 1) \<le> b * 1"
        using True b by (intro mult_left_mono) simp_all
      with int_div_mod_bounds(2) [OF b, of n] show ?thesis by simp
    qed
    ultimately show ?thesis using 1 by (simp add: len)
  next
    case False
    then have pos: "0 < n div b" by simp
    let ?l = "base_length b (n div b)"
    have ih: "b ^ nat (?l - 1) \<le> n div b" "n div b < b ^ nat ?l"
      using 1 pos by auto
    have l1: "1 \<le> ?l" using pos 1 by (intro base_length_pos) auto
    have p1: "b * b ^ nat (?l - 1) = b ^ nat ?l"
      using l1 by (simp add: nat_diff_distrib power_eq_if)
    have p2: "b * b ^ nat ?l = b ^ nat (1 + ?l)"
      using l1 by (simp add: nat_add_distrib)
    have "b * b ^ nat (?l - 1) \<le> b * (n div b)"
      using ih(1) b by (simp add: mult_left_mono)
    also have "\<dots> \<le> n" by (rule int_div_mod_bounds(1) [OF b])
    finally have lower: "b ^ nat (base_length b n - 1) \<le> n"
      by (simp add: len p1)
    have "n div b + 1 \<le> b ^ nat ?l" using ih(2) by simp
    then have "b * (n div b + 1) \<le> b * b ^ nat ?l"
      using b by (simp add: mult_left_mono)
    with int_div_mod_bounds(2) [OF b, of n] have "n < b * b ^ nat ?l" by linarith
    then have upper: "n < b ^ nat (base_length b n)"
      by (simp add: len p2)
    show ?thesis using lower upper by simp
  qed
qed


lemma expo_bounds:
  assumes "1 \<le> x"
  shows "0 \<le> expo x" and "2 powi expo x \<le> x" and "x < 2 powi (expo x + 1)"
proof -
  let ?n = "\<lfloor>x\<rfloor>"
  have n: "0 < ?n" using assms by simp
  have e: "expo x = base_length 2 ?n - 1" using assms by (simp add: expo_def)
  have l1: "1 \<le> base_length 2 ?n" using n by (intro base_length_pos) simp_all
  then show e0: "0 \<le> expo x" by (simp add: e)
  have b: "2 ^ nat (expo x) \<le> ?n" "?n < 2 ^ nat (expo x + 1)"
    using base_length_bounds [OF n, of 2] by (simp_all add: e)
  have "(of_int (2 ^ nat (expo x)) :: rat) \<le> of_int ?n"
    using b(1) by (simp only: of_int_le_iff)
  also have "\<dots> \<le> x" by simp
  finally show "2 powi expo x \<le> x"
    using e0 by (simp add: power_int_nonneg_exp)
  have "?n + 1 \<le> 2 ^ nat (expo x + 1)" using b(2) by simp
  then have "(of_int (?n + 1) :: rat) \<le> of_int (2 ^ nat (expo x + 1))"
    by (simp only: of_int_le_iff)
  moreover have "x < of_int (?n + 1)" by simp linarith
  ultimately show "x < 2 powi (expo x + 1)"
    using e0 by (simp add: power_int_nonneg_exp)
qed

lemma ulp_pos: "0 < ulp x"
  by (simp add: ulp_def)

lemma fl_error_ulp: "\<bar>fl x - x\<bar> \<le> ulp x / 2"
proof (cases "x = 0")
  case True
  then show ?thesis using ulp_pos [of 0] by (simp add: fl_def)
next
  case False
  let ?u = "ulp x"
  have u: "0 < ?u" by (rule ulp_pos)
  have "fl x - x = (of_int (rint (x / ?u)) - x / ?u) * ?u"
    using False u by (simp add: fl_def algebra_simps)
  then have "\<bar>fl x - x\<bar> = \<bar>of_int (rint (x / ?u)) - x / ?u\<bar> * ?u"
    using u by (simp add: abs_mult)
  also have "\<dots> \<le> (1 / 2) * ?u"
    using rint_error [of "x / ?u"] u by (intro mult_right_mono) simp_all
  finally show ?thesis by simp
qed

lemma ulp_le:
  assumes "1 \<le> x"
  shows "ulp x \<le> x / 2 ^ 52"
proof -
  have "ulp x = 2 powi expo x / 2 ^ 52"
    using assms by (simp add: ulp_def power_int_diff)
  also have "\<dots> \<le> x / 2 ^ 52"
    using expo_bounds(2) [OF assms] by (simp add: divide_right_mono)
  finally show ?thesis .
qed

lemma fl_rel_error:
  assumes "1 \<le> x"
  shows "\<bar>fl x - x\<bar> \<le> x / 2 ^ 53"
proof -
  have "\<bar>fl x - x\<bar> \<le> ulp x / 2" by (rule fl_error_ulp)
  also have "\<dots> \<le> (x / 2 ^ 52) / 2" using ulp_le [OF assms] by simp
  finally show ?thesis by simp
qed

lemma ulp_small:
  assumes "1 \<le> x" and "x < 2 ^ 53"
  shows "\<exists>j. ulp x = 1 / 2 ^ j"
proof -
  have "2 powi expo x < (2::rat) powi 53"
    using expo_bounds(2) [OF assms(1)] assms(2) by simp
  have "expo x < 53"
  proof (rule ccontr)
    assume "\<not> expo x < 53"
    then have "(2::rat) powi 53 \<le> 2 powi expo x"
      by (intro power_int_increasing) simp_all
    with \<open>2 powi expo x < (2::rat) powi 53\<close> show False by simp
  qed
  then have "expo x - 52 = - int (nat (52 - expo x))" by simp
  then have "ulp x = 2 powi (- int (nat (52 - expo x)))"
    using assms by (simp add: ulp_def)
  then have "ulp x = 1 / 2 ^ nat (52 - expo x)"
    by (simp only: power_int_minus_divide power_int_of_nat)
  then show ?thesis by blast
qed

lemma fl_ge_int:
  assumes "1 \<le> x" and "x < 2 ^ 53" and "of_int a \<le> x"
  shows "of_int a \<le> fl x"
proof -
  obtain j where u: "ulp x = 1 / 2 ^ j" using ulp_small [OF assms(1,2)] by blast
  have x0: "x \<noteq> 0" using assms by auto
  have "(of_int (a * 2 ^ j) :: rat) \<le> x * 2 ^ j"
    using assms(3) by (simp add: mult_right_mono)
  then have "a * 2 ^ j \<le> rint (x * 2 ^ j)" by (rule rint_ge_int)
  then have "(of_int (a * 2 ^ j) :: rat) \<le> of_int (rint (x * 2 ^ j))"
    by (simp only: of_int_le_iff)
  then have "(of_int a :: rat) \<le> of_int (rint (x * 2 ^ j)) / 2 ^ j"
    by (simp add: pos_le_divide_eq)
  then show ?thesis using x0 by (simp add: fl_def u)
qed

lemma fl_le_int:
  assumes "1 \<le> x" and "x < 2 ^ 53" and "x \<le> of_int b"
  shows "fl x \<le> of_int b"
proof -
  obtain j where u: "ulp x = 1 / 2 ^ j" using ulp_small [OF assms(1,2)] by blast
  have x0: "x \<noteq> 0" using assms by auto
  have "x * 2 ^ j \<le> (of_int (b * 2 ^ j) :: rat)"
    using assms(3) by (simp add: mult_right_mono)
  then have "rint (x * 2 ^ j) \<le> b * 2 ^ j" by (rule rint_le_int)
  then have "(of_int (rint (x * 2 ^ j)) :: rat) \<le> of_int (b * 2 ^ j)"
    by (simp only: of_int_le_iff)
  then have "of_int (rint (x * 2 ^ j)) / 2 ^ j \<le> (of_int b :: rat)"
    by (simp add: pos_divide_le_eq)
  then show ?thesis using x0 by (simp add: fl_def u)
qed

lemma fl_of_int_small:
  assumes "1 \<le> a" and "a < 2 ^ 53"
  shows "fl (of_int a) = of_int a"
proof -
  have "(of_int 1 :: rat) \<le> of_int a" using assms(1) by (simp only: of_int_le_iff)
  moreover have "(of_int a :: rat) < of_int (2 ^ 53)"
    using assms(2) by (simp only: of_int_less_iff)
  ultimately have r: "(1::rat) \<le> of_int a" "(of_int a :: rat) < 2 ^ 53" by simp_all
  have "of_int a \<le> fl (of_int a)" by (rule fl_ge_int [OF r]) simp
  moreover have "fl (of_int a) \<le> of_int a" by (rule fl_le_int [OF r]) simp
  ultimately show ?thesis by simp
qed

lemma np_round_2_bounds:
  assumes "5 \<le> u" and "u < 500"
  shows "5 \<le> np_round u 2" and "np_round u 2 \<le> 500"
proof -
  let ?y = "fl (u * 100)"
  have r: "1 \<le> u * 100" "u * 100 < 2 ^ 53" using assms by simp_all
  have "of_int 500 \<le> ?y" using assms by (intro fl_ge_int r) simp
  moreover have "?y \<le> of_int 50000" using assms by (intro fl_le_int r) simp
  ultimately have k: "500 \<le> rint ?y" "rint ?y \<le> 50000"
    by (auto intro: rint_ge_int rint_le_int)
  let ?z = "(of_int (rint ?y) :: rat) / 100"
  have z: "5 \<le> ?z" "?z \<le> 500" using k by simp_all
  then have r2: "1 \<le> ?z" "?z < 2 ^ 53" by simp_all
  have "of_int 5 \<le> fl ?z" using z by (intro fl_ge_int r2) simp
  moreover have "fl ?z \<le> of_int 500" using z by (intro fl_le_int r2) simp
  ultimately show "5 \<le> np_round u 2" and "np_round u 2 \<le> 500"
    by (simp_all add: np_round_def)
qed

subsection \<open>The rows of the generated frame\<close>

text \<open>
  A sized draw has the requested length and every element of it satisfies what one draw
  satisfies. Under the contract of the generator and for a row count that is not negative,
  the script reaches the frame: no branch raises, all columns have \<open>n\<close> entries, and row
  \<open>i\<close> holds the \<open>i\<close>-th entry of every column.
\<close>

lemma draws_length: "length (fst (draws f k s)) = k"
  by (induction k arbitrary: s) (simp_all add: split_beta Let_def)

lemma draws_all:
  assumes "\<And>s. P (fst (f s))"
  shows "\<forall>x \<in> set (fst (draws f k s)). P x"
  using assms by (induction k arbitrary: s) (simp_all add: split_beta Let_def)

lemma sized_nonneg: "0 \<le> n \<Longrightarrow> sized f n s = Inr (draws f (nat n) s)"
  by (simp add: sized_def)

lemma sized_negative: "n < 0 \<Longrightarrow> sized f n s = Inl ValueError"
  by (simp add: sized_def)

lemma toordinal_start_date: "toordinal start_date = 738156"
  by (simp add: toordinal_def start_date_def ymd2ord_def days_before_year_def
      days_before_month_def DAYS_BEFORE_MONTH_def)

lemma add_days_start_date:
  assumes "0 \<le> off" and "off < 730"
  shows "add_days start_date off = Inr (ord2ymd (738156 + off))"
  using assms by (simp add: add_days_def toordinal_start_date MAXORDINAL_def)

lemma dates_loop_ok:
  assumes "\<And>s. 0 \<le> fst (np_randint np 0 730 s) \<and> fst (np_randint np 0 730 s) < 730"
  shows "\<exists>ds s'. dates_loop np k s = Inr (ds, s') \<and> length ds = k
           \<and> (\<forall>d \<in> set ds. \<exists>off. 0 \<le> off \<and> off < 730 \<and> add_days start_date off = Inr d)"
proof (induction k arbitrary: s)
  case 0
  show ?case by simp
next
  case (Suc k)
  obtain off s1 where r: "np_randint np 0 730 s = (off, s1)" by (cases "np_randint np 0 730 s")
  have off: "0 \<le> off" "off < 730" using assms [of s] by (simp_all add: r)
  obtain ds s2 where ih: "dates_loop np k s1 = Inr (ds, s2)" "length ds = k"
    "\<forall>d \<in> set ds. \<exists>off. 0 \<le> off \<and> off < 730 \<and> add_days start_date off = Inr d"
    using Suc.IH [of s1] by blast
  have "dates_loop np (Suc k) s = Inr (ord2ymd (738156 + off) # ds, s2)"
    by (simp add: r add_days_start_date [OF off] ih(1))
  moreover have "\<exists>o'. 0 \<le> o' \<and> o' < 730 \<and> add_days start_date o' = Inr (ord2ymd (738156 + off))"
    using off add_days_start_date [OF off] by blast
  ultimately show ?case using ih(2,3) by simp
qed

lemma dates_loop_zero: "dates_loop np 0 s = Inr ([], s)"
  by simp

lemma set_total_mul_columns:
  "set_total df (mul_columns (map product_price df) (map quantity df)) =
     map (\<lambda>r. \<lparr>transaction_id = transaction_id r, customer_id = customer_id r,
                product_category = product_category r, product_price = product_price r,
                quantity = quantity r, date = date r, payment_method = payment_method r,
                country = country r,
                total = float_mul (product_price r) (fl (of_int (quantity r)))\<rparr>) df"
  by (induction df) (simp_all add: set_total_def mul_columns_def)

lemma length_upto_1: "length [1..n] = nat n"
  by simp

lemma nth_upto_1: "i < nat n \<Longrightarrow> [1..n] ! i = 1 + int i"
  by (simp add: nth_upto)


lemma contract_randint:
  "rng_contract np \<Longrightarrow> lo < hi \<Longrightarrow>
     lo \<le> fst (np_randint np lo hi s) \<and> fst (np_randint np lo hi s) < hi"
  by (simp add: rng_contract_def)

lemma contract_uniform:
  "rng_contract np \<Longrightarrow> lo < hi \<Longrightarrow>
     lo \<le> fst (np_uniform np lo hi s) \<and> fst (np_uniform np lo hi s) < hi"
  by (simp add: rng_contract_def)

lemma contract_choice:
  "rng_contract np \<Longrightarrow> xs \<noteq> [] \<Longrightarrow> fst (np_choice np xs s) \<in> set xs"
  by (simp add: rng_contract_def)

lemma contract_seed:
  "rng_contract np \<Longrightarrow> np_seed np x s = np_seed np x s'"
  by (simp add: rng_contract_def)

lemma categories_nonempty: "categories \<noteq> []" "payment_methods \<noteq> []" "countries \<noteq> []"
  by (simp_all add: categories_def payment_methods_def countries_def)

lemma draws_randint:
  assumes "rng_contract np" and "lo < hi"
  shows "\<forall>x \<in> set (fst (draws (np_randint np lo hi) k s)). lo \<le> x \<and> x < hi"
  by (rule draws_all) (rule contract_randint [OF assms])

lemma draws_uniform:
  assumes "rng_contract np" and "lo < hi"
  shows "\<forall>x \<in> set (fst (draws (np_uniform np lo hi) k s)). lo \<le> x \<and> x < hi"
  by (rule draws_all) (rule contract_uniform [OF assms])

lemma draws_choice:
  assumes "rng_contract np" and "xs \<noteq> []"
  shows "\<forall>x \<in> set (fst (draws (np_choice np xs) k s)). x \<in> set xs"
  by (rule draws_all) (rule contract_choice [OF assms])

lemma synthesize_ok:
  assumes c: "rng_contract np" and n: "0 \<le> n"
  shows "\<exists>d. synthesize np seed n s = Inr d
        \<and> col_transaction_id d = [1..n]
        \<and> length (col_customer_id d) = nat n
        \<and> (\<forall>x \<in> set (col_customer_id d). 1000 \<le> x \<and> x < 50000)
        \<and> length (col_product_category d) = nat n
        \<and> set (col_product_category d) \<subseteq> set categories
        \<and> length (col_product_price d) = nat n
        \<and> (\<forall>p \<in> set (col_product_price d). \<exists>u. 5 \<le> u \<and> u < 500 \<and> p = np_round u 2)
        \<and> length (col_quantity d) = nat n
        \<and> (\<forall>x \<in> set (col_quantity d). 1 \<le> x \<and> x < 10)
        \<and> length (col_date d) = nat n
        \<and> (\<forall>x \<in> set (col_date d). \<exists>off. 0 \<le> off \<and> off < 730 \<and> add_days start_date off = Inr x)
        \<and> length (col_payment_method d) = nat n
        \<and> set (col_payment_method d) \<subseteq> set payment_methods
        \<and> length (col_country d) = nat n
        \<and> set (col_country d) \<subseteq> set countries"
proof -
  let ?s0 = "np_seed np seed s"
  have "\<And>t. 0 \<le> fst (np_randint np 0 730 t) \<and> fst (np_randint np 0 730 t) < 730"
    using contract_randint [OF c, of 0 730] by simp
  from dates_loop_ok [of np "nat n" ?s0, OF this]
  obtain dates s1 where d: "dates_loop np (nat n) ?s0 = Inr (dates, s1)" "length dates = nat n"
    "\<forall>x \<in> set dates. \<exists>off. 0 \<le> off \<and> off < 730 \<and> add_days start_date off = Inr x"
    by blast
  obtain cust s2 where r2: "draws (np_randint np 1000 50000) (nat n) s1 = (cust, s2)"
    by (cases "draws (np_randint np 1000 50000) (nat n) s1")
  obtain cats s3 where r3: "draws (np_choice np categories) (nat n) s2 = (cats, s3)"
    by (cases "draws (np_choice np categories) (nat n) s2")
  obtain us s4 where r4: "draws (np_uniform np 5 500) (nat n) s3 = (us, s4)"
    by (cases "draws (np_uniform np 5 500) (nat n) s3")
  obtain qs s5 where r5: "draws (np_randint np 1 10) (nat n) s4 = (qs, s5)"
    by (cases "draws (np_randint np 1 10) (nat n) s4")
  obtain pays s6 where r6: "draws (np_choice np payment_methods) (nat n) s5 = (pays, s6)"
    by (cases "draws (np_choice np payment_methods) (nat n) s5")
  obtain ctrs s7 where r7: "draws (np_choice np countries) (nat n) s6 = (ctrs, s7)"
    by (cases "draws (np_choice np countries) (nat n) s6")
  have syn: "synthesize np seed n s =
      Inr \<lparr>col_transaction_id = [1..n], col_customer_id = cust, col_product_category = cats,
           col_product_price = map (\<lambda>u. np_round u 2) us, col_quantity = qs,
           col_date = dates, col_payment_method = pays, col_country = ctrs\<rparr>"
    using n by (simp add: synthesize_def range_py_def d(1) sized_nonneg r2 r3 r4 r5 r6 r7)
  have l2: "length cust = nat n" using draws_length [of "np_randint np 1000 50000" "nat n" s1]
    by (simp add: r2)
  have l3: "length cats = nat n" using draws_length [of "np_choice np categories" "nat n" s2]
    by (simp add: r3)
  have l4: "length us = nat n" using draws_length [of "np_uniform np 5 500" "nat n" s3]
    by (simp add: r4)
  have l5: "length qs = nat n" using draws_length [of "np_randint np 1 10" "nat n" s4]
    by (simp add: r5)
  have l6: "length pays = nat n" using draws_length [of "np_choice np payment_methods" "nat n" s5]
    by (simp add: r6)
  have l7: "length ctrs = nat n" using draws_length [of "np_choice np countries" "nat n" s6]
    by (simp add: r7)
  have p2: "\<forall>x \<in> set cust. 1000 \<le> x \<and> x < 50000"
    using draws_randint [OF c, of 1000 50000 "nat n" s1] by (simp add: r2)
  have p3: "set cats \<subseteq> set categories"
    using draws_choice [OF c categories_nonempty(1), of "nat n" s2]
    by (simp add: r3 subset_iff)
  have p4: "\<forall>u \<in> set us. 5 \<le> u \<and> u < 500"
    using draws_uniform [OF c, of 5 500 "nat n" s3] by (simp add: r4)
  have p5: "\<forall>x \<in> set qs. 1 \<le> x \<and> x < 10"
    using draws_randint [OF c, of 1 10 "nat n" s4] by (simp add: r5)
  have p6: "set pays \<subseteq> set payment_methods"
    using draws_choice [OF c categories_nonempty(2), of "nat n" s5]
    by (simp add: r6 subset_iff)
  have p7: "set ctrs \<subseteq> set countries"
    using draws_choice [OF c categories_nonempty(3), of "nat n" s6]
    by (simp add: r7 subset_iff)
  have p4': "\<forall>p \<in> set (map (\<lambda>u. np_round u 2) us). \<exists>u. 5 \<le> u \<and> u < 500 \<and> p = np_round u 2"
    using p4 by auto
  have l4': "length (map (\<lambda>u. np_round u 2) us) = nat n" using l4 by simp
  show ?thesis
    unfolding syn using d(2,3) l2 l3 l4' l5 l6 l7 p2 p3 p4' p5 p6 p7 by simp
qed

lemma generate_rows:
  assumes c: "rng_contract np" and n: "0 \<le> n"
  shows "\<exists>df. generate np seed n s = Inr df \<and> length df = nat n \<and>
     (\<forall>i < nat n.
        transaction_id (df ! i) = 1 + int i
      \<and> 1000 \<le> customer_id (df ! i) \<and> customer_id (df ! i) < 50000
      \<and> product_category (df ! i) \<in> set categories
      \<and> (\<exists>u. 5 \<le> u \<and> u < 500 \<and> product_price (df ! i) = np_round u 2)
      \<and> 1 \<le> quantity (df ! i) \<and> quantity (df ! i) < 10
      \<and> (\<exists>off. 0 \<le> off \<and> off < 730 \<and> add_days start_date off = Inr (date (df ! i)))
      \<and> payment_method (df ! i) \<in> set payment_methods
      \<and> country (df ! i) \<in> set countries
      \<and> total (df ! i) = float_mul (product_price (df ! i)) (of_int (quantity (df ! i))))"
proof -
  from synthesize_ok [OF c n, of seed s] obtain d where
    syn: "synthesize np seed n s = Inr d" and
    d1: "col_transaction_id d = [1..n]" and
    l: "length (col_customer_id d) = nat n" "length (col_product_category d) = nat n"
       "length (col_product_price d) = nat n" "length (col_quantity d) = nat n"
       "length (col_date d) = nat n" "length (col_payment_method d) = nat n"
       "length (col_country d) = nat n" and
    p2: "\<forall>x \<in> set (col_customer_id d). 1000 \<le> x \<and> x < 50000" and
    p3: "set (col_product_category d) \<subseteq> set categories" and
    p4: "\<forall>p \<in> set (col_product_price d). \<exists>u. 5 \<le> u \<and> u < 500 \<and> p = np_round u 2" and
    p5: "\<forall>x \<in> set (col_quantity d). 1 \<le> x \<and> x < 10" and
    p6: "\<forall>x \<in> set (col_date d). \<exists>off. 0 \<le> off \<and> off < 730 \<and> add_days start_date off = Inr x" and
    p7: "set (col_payment_method d) \<subseteq> set payment_methods" and
    p8: "set (col_country d) \<subseteq> set countries"
    by blast
  let ?mk = "\<lambda>i. \<lparr>transaction_id = col_transaction_id d ! i,
                   customer_id = col_customer_id d ! i,
                   product_category = col_product_category d ! i,
                   product_price = col_product_price d ! i,
                   quantity = col_quantity d ! i,
                   date = col_date d ! i,
                   payment_method = col_payment_method d ! i,
                   country = col_country d ! i\<rparr>"
  have frame: "DataFrame d = Inr (map ?mk [0..<nat n])"
    using l by (simp add: DataFrame_def d1)
  let ?df = "map (\<lambda>r. \<lparr>transaction_id = transaction_id r, customer_id = customer_id r,
                product_category = product_category r, product_price = product_price r,
                quantity = quantity r, date = date r, payment_method = payment_method r,
                country = country r,
                total = float_mul (product_price r) (fl (of_int (quantity r)))\<rparr>) (map ?mk [0..<nat n])"
  have gen: "generate np seed n s = Inr ?df"
    by (simp only: generate_def syn frame sum.case set_total_mul_columns)
  have rows: "\<forall>i < nat n.
        transaction_id (?df ! i) = 1 + int i
      \<and> 1000 \<le> customer_id (?df ! i) \<and> customer_id (?df ! i) < 50000
      \<and> product_category (?df ! i) \<in> set categories
      \<and> (\<exists>u. 5 \<le> u \<and> u < 500 \<and> product_price (?df ! i) = np_round u 2)
      \<and> 1 \<le> quantity (?df ! i) \<and> quantity (?df ! i) < 10
      \<and> (\<exists>off. 0 \<le> off \<and> off < 730 \<and> add_days start_date off = Inr (date (?df ! i)))
      \<and> payment_method (?df ! i) \<in> set payment_methods
      \<and> country (?df ! i) \<in> set countries
      \<and> total (?df ! i) = float_mul (product_price (?df ! i)) (of_int (quantity (?df ! i)))"
  proof (intro allI impI)
    fix i assume i: "i < nat n"
    have m2: "col_customer_id d ! i \<in> set (col_customer_id d)"
      and m3: "col_product_category d ! i \<in> set (col_product_category d)"
      and m4: "col_product_price d ! i \<in> set (col_product_price d)"
      and m5: "col_quantity d ! i \<in> set (col_quantity d)"
      and m6: "col_date d ! i \<in> set (col_date d)"
      and m7: "col_payment_method d ! i \<in> set (col_payment_method d)"
      and m8: "col_country d ! i \<in> set (col_country d)"
      using i l by simp_all
    have "1 \<le> col_quantity d ! i" "col_quantity d ! i < 2 ^ 53"
      using p5 [rule_format, OF m5] by simp_all
    then have fq: "fl (of_int (col_quantity d ! i)) = of_int (col_quantity d ! i)"
      by (rule fl_of_int_small)
    show "transaction_id (?df ! i) = 1 + int i
      \<and> 1000 \<le> customer_id (?df ! i) \<and> customer_id (?df ! i) < 50000
      \<and> product_category (?df ! i) \<in> set categories
      \<and> (\<exists>u. 5 \<le> u \<and> u < 500 \<and> product_price (?df ! i) = np_round u 2)
      \<and> 1 \<le> quantity (?df ! i) \<and> quantity (?df ! i) < 10
      \<and> (\<exists>off. 0 \<le> off \<and> off < 730 \<and> add_days start_date off = Inr (date (?df ! i)))
      \<and> payment_method (?df ! i) \<in> set payment_methods
      \<and> country (?df ! i) \<in> set countries
      \<and> total (?df ! i) = float_mul (product_price (?df ! i)) (of_int (quantity (?df ! i)))"
      using i p2 [rule_format, OF m2] p3 m3 p4 [rule_format, OF m4] p5 [rule_format, OF m5]
        p6 [rule_format, OF m6] p7 m7 p8 m8
      by (simp add: d1 nth_upto_1 subset_iff fq)
  qed
  have "length ?df = nat n" by simp
  with gen rows show ?thesis by blast
qed

subsection \<open>The calendar between 2022 and 2024\<close>

text \<open>
  The 730 ordinals from the start date fall in the non-leap years 2022 and 2023, where
  \<open>ord2ymd\<close> reduces to the month table. Every date drawn lies between the start date and
  the first of January 2024, which is the start date plus 730 days.
\<close>

lemma nonleap_month_day:
  fixes n :: int
  assumes "0 \<le> n" and "n < 365"
  defines "m \<equiv> (n + 50) div 32"
  shows "if n < DAYS_BEFORE_MONTH ! nat m
         then 1 \<le> m - 1 \<and> m - 1 \<le> 12
              \<and> 1 \<le> n - (DAYS_BEFORE_MONTH ! nat m - DAYS_IN_MONTH ! nat (m - 1)) + 1
              \<and> n - (DAYS_BEFORE_MONTH ! nat m - DAYS_IN_MONTH ! nat (m - 1)) + 1 \<le> 31
         else 1 \<le> m \<and> m \<le> 12
              \<and> 1 \<le> n - DAYS_BEFORE_MONTH ! nat m + 1
              \<and> n - DAYS_BEFORE_MONTH ! nat m + 1 \<le> 31"
proof -
  have mb: "32 * m \<le> n + 50" "n + 50 < 32 * m + 32"
    using int_div_mod_bounds [of 32 "n + 50"] by (simp_all add: m_def)
  have "1 \<le> m" "m \<le> 12" using mb assms(1,2) by linarith+
  then have "m = 1 \<or> m = 2 \<or> m = 3 \<or> m = 4 \<or> m = 5 \<or> m = 6 \<or> m = 7 \<or> m = 8
           \<or> m = 9 \<or> m = 10 \<or> m = 11 \<or> m = 12" by presburger
  then show ?thesis
    using mb assms(1,2)
    by (elim disjE) (simp_all add: DAYS_BEFORE_MONTH_def DAYS_IN_MONTH_def)
qed


lemma ord2ymd_in_window:
  assumes "0 \<le> off" and "off < 730"
  shows "ord2ymd (738156 + off) =
      (let n = off mod 365; m = (n + 50) div 32; preceding = DAYS_BEFORE_MONTH ! nat m
       in if n < preceding
          then \<lparr>year = 2022 + off div 365, month = m - 1,
                day = n - (preceding - DAYS_IN_MONTH ! nat (m - 1)) + 1\<rparr>
          else \<lparr>year = 2022 + off div 365, month = m, day = n - preceding + 1\<rparr>)"
proof -
  have q: "off div 365 = 0 \<or> off div 365 = 1"
    using int_div_mod_bounds [of 365 off] assms by auto
  have a: "(738155 + off) div 146097 = 5" "(738155 + off) mod 146097 = 7670 + off"
    using assms by (auto intro: int_div_pos_eq int_mod_pos_eq)
  have b: "(7670 + off) div 36524 = 0" "(7670 + off) mod 36524 = 7670 + off"
    using assms by (simp_all add: div_pos_pos_trivial mod_pos_pos_trivial)
  have c: "(7670 + off) div 1461 = 5" "(7670 + off) mod 1461 = 365 + off"
    using assms by (auto intro: int_div_pos_eq int_mod_pos_eq)
  have d: "(365 + off) div 365 = 1 + off div 365" "(365 + off) mod 365 = off mod 365"
    by simp_all
  have e: "738156 + off - 1 = 738155 + off" by simp
  have m: "\<not> 2 < (off mod 365 + 50) div 32 \<or> True" by simp
  from q show ?thesis
  proof
    assume q0: "off div 365 = 0"
    show ?thesis
      unfolding ord2ymd_def e Let_def a b c d q0 by simp
  next
    assume q1: "off div 365 = 1"
    show ?thesis
      unfolding ord2ymd_def e Let_def a b c d q1 by simp
  qed
qed


lemma ord2ymd_window:
  assumes "0 \<le> off" and "off < 730"
  shows "year (ord2ymd (738156 + off)) = 2022 + off div 365"
    and "1 \<le> month (ord2ymd (738156 + off))" and "month (ord2ymd (738156 + off)) \<le> 12"
    and "1 \<le> day (ord2ymd (738156 + off))" and "day (ord2ymd (738156 + off)) \<le> 31"
proof -
  have n: "0 \<le> off mod 365" "off mod 365 < 365" by simp_all
  note md = nonleap_month_day [OF n]
  show "year (ord2ymd (738156 + off)) = 2022 + off div 365"
    and "1 \<le> month (ord2ymd (738156 + off))" and "month (ord2ymd (738156 + off)) \<le> 12"
    and "1 \<le> day (ord2ymd (738156 + off))" and "day (ord2ymd (738156 + off)) \<le> 31"
    using md unfolding ord2ymd_in_window [OF assms] Let_def
    by (simp_all split: if_splits)
qed

lemma window_end: "add_days start_date 730 = Inr \<lparr>year = 2024, month = 1, day = 1\<rparr>"
  by (simp add: add_days_def toordinal_start_date MAXORDINAL_def ord2ymd_def
      DAYS_BEFORE_MONTH_def DAYS_IN_MONTH_def)

lemma date_in_window:
  assumes "0 \<le> off" and "off < 730"
  shows "datetime_le start_date (ord2ymd (738156 + off))"
    and "datetime_le (ord2ymd (738156 + off)) \<lparr>year = 2024, month = 1, day = 1\<rparr>"
proof -
  have q: "0 \<le> off div 365" "off div 365 \<le> 1"
    using int_div_mod_bounds [of 365 off] assms by auto
  note w = ord2ymd_window [OF assms]
  show "datetime_le start_date (ord2ymd (738156 + off))"
    using w q by (auto simp: datetime_le_def start_date_def)
  show "datetime_le (ord2ymd (738156 + off)) \<lparr>year = 2024, month = 1, day = 1\<rparr>"
    using w q by (auto simp: datetime_le_def)
qed

subsection \<open>A generator for the examples, and the claims on identifiers and dates\<close>

lemma scripted_contract: "rng_contract (scripted script)"
proof -
  have r: "lo \<le> lo + (k - lo) mod (hi - lo) \<and> lo + (k - lo) mod (hi - lo) < hi"
    if "lo < hi" for lo hi k :: int
    using that pos_mod_sign [of "hi - lo" "k - lo"] pos_mod_bound [of "hi - lo" "k - lo"]
    by linarith
  have c: "xs ! (k mod length xs) \<in> set xs" if "xs \<noteq> []" for xs :: "string list" and k
    using that by simp
  show ?thesis
    unfolding rng_contract_def scripted_def
    by (auto simp: r c split: list.splits)
qed

text \<open>
  Claim C4. For a run with row count \<open>n\<close> the \<open>transaction_id\<close> column of the generated
  frame is the list \<open>1, 2, \<dots>, n\<close>: strictly increasing, without repetition, and its
  values are exactly the integers from 1 to \<open>n\<close>.
\<close>

theorem transaction_id_contiguous:
  assumes "rng_contract np" and "0 \<le> n"
  shows "\<exists>df. generate np seed n s = Inr df
            \<and> map transaction_id df = [1..n]
            \<and> int (length df) = n
            \<and> sorted_wrt (<) (map transaction_id df)
            \<and> distinct (map transaction_id df)
            \<and> set (map transaction_id df) = {1..n}"
proof -
  from generate_rows [OF assms, of seed s] obtain df where
    g: "generate np seed n s = Inr df" and l: "length df = nat n" and
    t: "\<forall>i < nat n. transaction_id (df ! i) = 1 + int i"
    by blast
  have eq: "map transaction_id df = [1..n]"
    using l t by (intro nth_equalityI) (simp_all add: nth_upto_1)
  have "sorted_wrt (<) [1..n]"
    by (simp add: strict_sorted_iff)
  then show ?thesis
    using g l assms(2) by (intro exI [of _ df]) (simp add: eq)
qed

theorem transaction_id_contiguous_witness:
  "rng_contract (scripted []) \<and> (0::int) \<le> 3
   \<and> (\<exists>df. generate (scripted []) 42 3 [] = Inr df \<and> map transaction_id df = [1, 2, 3])"
proof -
  have h: "(0::int) \<le> 3" by simp
  have u: "[1..3] = [1, 2, 3::int]" by (simp add: upto_rec1)
  have c: "rng_contract (scripted [])" by (rule scripted_contract)
  from transaction_id_contiguous [OF c h]
  have "\<exists>df. generate (scripted []) 42 3 [] = Inr df \<and> map transaction_id df = [1..3]"
    by blast
  then show ?thesis using c h unfolding u by simp
qed

text \<open>
  Claim C5. Every generated record has a date between the start date and the start date
  plus 730 days, both included: it is the start date plus an offset that
  \<open>np.random.randint(0, 730)\<close> drew for that record, one draw per record. How the draws are
  distributed is the generator's matter and is not part of the model.
\<close>

theorem date_in_two_year_window:
  assumes "rng_contract np" and "0 \<le> n"
  shows "\<exists>df window_end. generate np seed n s = Inr df
            \<and> add_days start_date 730 = Inr window_end
            \<and> (\<forall>r \<in> set df. datetime_le start_date (date r) \<and> datetime_le (date r) window_end
                  \<and> (\<exists>off. 0 \<le> off \<and> off < 730 \<and> add_days start_date off = Inr (date r)))"
proof -
  from generate_rows [OF assms, of seed s] obtain df where
    g: "generate np seed n s = Inr df" and l: "length df = nat n" and
    t: "\<forall>i < nat n. \<exists>off. 0 \<le> off \<and> off < 730 \<and> add_days start_date off = Inr (date (df ! i))"
    by blast
  let ?e = "\<lparr>year = 2024, month = 1, day = 1\<rparr>"
  have "datetime_le start_date (date r) \<and> datetime_le (date r) ?e
        \<and> (\<exists>off. 0 \<le> off \<and> off < 730 \<and> add_days start_date off = Inr (date r))"
    if "r \<in> set df" for r
  proof -
    from that obtain i where i: "i < length df" "df ! i = r" by (auto simp: in_set_conv_nth)
    with t l obtain off where off: "0 \<le> off" "off < 730" "add_days start_date off = Inr (date r)"
      by auto
    then have "date r = ord2ymd (738156 + off)"
      by (simp add: add_days_start_date)
    with date_in_window [OF off(1,2)] off show ?thesis by auto
  qed
  with g window_end show ?thesis by blast
qed

theorem date_in_two_year_window_witness:
  "rng_contract (scripted [729]) \<and> (0::int) \<le> 1
   \<and> (\<exists>df. generate (scripted [729]) 42 1 [] = Inr df
         \<and> (\<forall>r \<in> set df. datetime_le \<lparr>year = 2022, month = 1, day = 1\<rparr> (date r)
                          \<and> datetime_le (date r) \<lparr>year = 2024, month = 1, day = 1\<rparr>))"
proof -
  have h: "(0::int) \<le> 1" by simp
  have c: "rng_contract (scripted [729])" by (rule scripted_contract)
  from date_in_two_year_window [OF c h]
  have "\<exists>df. generate (scripted [729]) 42 1 [] = Inr df
         \<and> (\<forall>r \<in> set df. datetime_le start_date (date r)
                          \<and> datetime_le (date r) \<lparr>year = 2024, month = 1, day = 1\<rparr>)"
    unfolding window_end by blast
  then show ?thesis using c h unfolding start_date_def by simp
qed

subsection \<open>Every row of the frame\<close>

lemma generate_each_row:
  assumes c: "rng_contract np" and n: "0 \<le> n"
  shows "\<exists>df. generate np seed n s = Inr df \<and>
     (\<forall>r \<in> set df.
        1000 \<le> customer_id r \<and> customer_id r < 50000
      \<and> product_category r \<in> set categories
      \<and> (\<exists>u. 5 \<le> u \<and> u < 500 \<and> product_price r = np_round u 2)
      \<and> 1 \<le> quantity r \<and> quantity r < 10
      \<and> payment_method r \<in> set payment_methods
      \<and> country r \<in> set countries
      \<and> total r = float_mul (product_price r) (of_int (quantity r)))"
proof -
  from generate_rows [OF assms, of seed s] obtain df where
    g: "generate np seed n s = Inr df" and l: "length df = nat n" and
    t: "\<forall>i < nat n.
        transaction_id (df ! i) = 1 + int i
      \<and> 1000 \<le> customer_id (df ! i) \<and> customer_id (df ! i) < 50000
      \<and> product_category (df ! i) \<in> set categories
      \<and> (\<exists>u. 5 \<le> u \<and> u < 500 \<and> product_price (df ! i) = np_round u 2)
      \<and> 1 \<le> quantity (df ! i) \<and> quantity (df ! i) < 10
      \<and> (\<exists>off. 0 \<le> off \<and> off < 730 \<and> add_days start_date off = Inr (date (df ! i)))
      \<and> payment_method (df ! i) \<in> set payment_methods
      \<and> country (df ! i) \<in> set countries
      \<and> total (df ! i) = float_mul (product_price (df ! i)) (of_int (quantity (df ! i)))"
    by blast
  have "1000 \<le> customer_id r \<and> customer_id r < 50000
      \<and> product_category r \<in> set categories
      \<and> (\<exists>u. 5 \<le> u \<and> u < 500 \<and> product_price r = np_round u 2)
      \<and> 1 \<le> quantity r \<and> quantity r < 10
      \<and> payment_method r \<in> set payment_methods
      \<and> country r \<in> set countries
      \<and> total r = float_mul (product_price r) (of_int (quantity r))"
    if "r \<in> set df" for r
  proof -
    from that obtain i where i: "i < nat n" "df ! i = r"
      using l by (auto simp: in_set_conv_nth)
    from t [rule_format, OF i(1)] show ?thesis unfolding i(2) by blast
  qed
  with g show ?thesis by blast
qed

subsection \<open>Two recorded runs, and the claims on field domains and on the total\<close>

text \<open>
  Two runs of one row each. In the first the price draw is \<open>500 - 1/256\<close>, a double just
  below the upper end of \<open>uniform(5, 500)\<close>; in the second it is \<open>5 + 13/128\<close>, which
  \<open>np.round\<close> takes to the double nearest to \<open>5.1\<close>, and the quantity drawn is 3.
\<close>

lemma np_round_example_500: "np_round (127999 / 256) 2 = 500"
  by code_simp

lemma float_mul_example_500: "float_mul 500 (fl 1) = 500"
  by code_simp

lemma ord2ymd_start: "ord2ymd 738156 = \<lparr>year = 2022, month = 1, day = 1\<rparr>"
  using ord2ymd_in_window [of 0]
  by (simp add: DAYS_BEFORE_MONTH_def DAYS_IN_MONTH_def)

lemma generate_example_500:
  "generate (scripted [0, 1000, 0, 500 - 1 / 256, 1, 0, 0]) 42 1 [] =
     Inr [\<lparr>transaction_id = 1, customer_id = 1000, product_category = ''Electronics'',
           product_price = 500, quantity = 1, date = \<lparr>year = 2022, month = 1, day = 1\<rparr>,
           payment_method = ''Credit Card'', country = ''Germany'', total = 500\<rparr>]"
  by (simp add: generate_def synthesize_def scripted_def sized_def range_py_def DataFrame_def
      set_total_def mul_columns_def add_days_def toordinal_start_date MAXORDINAL_def
      ord2ymd_start categories_def payment_methods_def countries_def
      np_round_example_500 float_mul_example_500 upto_rec1)


lemma np_round_example_51: "np_round (653 / 128) 2 = 2871044762448691 / 562949953421312"
  by code_simp

lemma float_mul_example_51:
  "float_mul (2871044762448691 / 562949953421312) (fl 3) = 8613134287346073 / 562949953421312"
  "float_mul (2871044762448691 / 562949953421312) 3 = 8613134287346073 / 562949953421312"
  by code_simp+

lemma np_round_example_153:
  "np_round (8613134287346073 / 562949953421312) 2 = 4306567143673037 / 281474976710656"
  by code_simp

lemma generate_example_51:
  "generate (scripted [0, 1000, 0, 5 + 13 / 128, 3, 0, 0]) 42 1 [] =
     Inr [\<lparr>transaction_id = 1, customer_id = 1000, product_category = ''Electronics'',
           product_price = 2871044762448691 / 562949953421312, quantity = 3,
           date = \<lparr>year = 2022, month = 1, day = 1\<rparr>,
           payment_method = ''Credit Card'', country = ''Germany'',
           total = 8613134287346073 / 562949953421312\<rparr>]"
  by (simp add: generate_def synthesize_def scripted_def sized_def range_py_def DataFrame_def
      set_total_def mul_columns_def add_days_def toordinal_start_date MAXORDINAL_def
      ord2ymd_start categories_def payment_methods_def countries_def
      np_round_example_51 float_mul_example_51 upto_rec1)

text \<open>
  Claim C7, as amended. Every generated record has its three categorical fields in the
  declared sets, \<open>customer_id\<close> in \<open>[1000, 50000)\<close> and \<open>quantity\<close> in \<open>[1, 10)\<close>; its
  \<open>product_price\<close> lies in the closed interval \<open>[5.00, 500.00]\<close>. The upper bound is
  attained: \<open>np.round\<close> takes a draw of \<open>499.995\<close> or more to \<open>500.0\<close>.
\<close>

theorem field_domains:
  assumes "rng_contract np" and "0 \<le> n"
  shows "\<exists>df. generate np seed n s = Inr df \<and>
     (\<forall>r \<in> set df.
        product_category r \<in> {''Electronics'', ''Fashion'', ''Home'', ''Sports'', ''Books''}
      \<and> payment_method r \<in> {''Credit Card'', ''PayPal'', ''Bank Transfer'', ''Cash''}
      \<and> country r \<in> {''Germany'', ''Austria'', ''Switzerland'', ''Netherlands'', ''Belgium''}
      \<and> 1000 \<le> customer_id r \<and> customer_id r < 50000
      \<and> 5 \<le> product_price r \<and> product_price r \<le> 500
      \<and> 1 \<le> quantity r \<and> quantity r < 10)"
proof -
  from generate_each_row [OF assms, of seed s] obtain df where
    g: "generate np seed n s = Inr df" and
    t: "\<forall>r \<in> set df.
        1000 \<le> customer_id r \<and> customer_id r < 50000
      \<and> product_category r \<in> set categories
      \<and> (\<exists>u. 5 \<le> u \<and> u < 500 \<and> product_price r = np_round u 2)
      \<and> 1 \<le> quantity r \<and> quantity r < 10
      \<and> payment_method r \<in> set payment_methods
      \<and> country r \<in> set countries
      \<and> total r = float_mul (product_price r) (of_int (quantity r))"
    by blast
  have "product_category r \<in> {''Electronics'', ''Fashion'', ''Home'', ''Sports'', ''Books''}
      \<and> payment_method r \<in> {''Credit Card'', ''PayPal'', ''Bank Transfer'', ''Cash''}
      \<and> country r \<in> {''Germany'', ''Austria'', ''Switzerland'', ''Netherlands'', ''Belgium''}
      \<and> 1000 \<le> customer_id r \<and> customer_id r < 50000
      \<and> 5 \<le> product_price r \<and> product_price r \<le> 500
      \<and> 1 \<le> quantity r \<and> quantity r < 10"
    if r: "r \<in> set df" for r
  proof -
    note f = t [rule_format, OF r]
    from f obtain u where u: "5 \<le> u" "u < 500" "product_price r = np_round u 2" by blast
    have p: "5 \<le> product_price r" "product_price r \<le> 500"
      using np_round_2_bounds [OF u(1,2)] by (simp_all add: u(3))
    have c1: "product_category r \<in> set categories"
      and c2: "payment_method r \<in> set payment_methods"
      and c3: "country r \<in> set countries" using f by blast+
    have s1: "set categories = {''Electronics'', ''Fashion'', ''Home'', ''Sports'', ''Books''}"
      by (simp add: categories_def)
    have s2: "set payment_methods = {''Credit Card'', ''PayPal'', ''Bank Transfer'', ''Cash''}"
      by (simp add: payment_methods_def)
    have s3: "set countries = {''Germany'', ''Austria'', ''Switzerland'', ''Netherlands'', ''Belgium''}"
      by (simp add: countries_def)
    have ids: "1000 \<le> customer_id r" "customer_id r < 50000"
      "1 \<le> quantity r" "quantity r < 10" using f by blast+
    show ?thesis
      unfolding s1 [symmetric] s2 [symmetric] s3 [symmetric]
      by (intro conjI c1 c2 c3 ids p)
  qed
  with g show ?thesis by blast
qed

theorem field_domains_witness:
  "rng_contract (scripted [0, 1000, 0, 500 - 1 / 256, 1, 0, 0]) \<and> (0::int) \<le> 1
   \<and> (\<exists>df. generate (scripted [0, 1000, 0, 500 - 1 / 256, 1, 0, 0]) 42 1 [] = Inr df \<and>
     (\<forall>r \<in> set df.
        product_category r \<in> {''Electronics'', ''Fashion'', ''Home'', ''Sports'', ''Books''}
      \<and> payment_method r \<in> {''Credit Card'', ''PayPal'', ''Bank Transfer'', ''Cash''}
      \<and> country r \<in> {''Germany'', ''Austria'', ''Switzerland'', ''Netherlands'', ''Belgium''}
      \<and> 1000 \<le> customer_id r \<and> customer_id r < 50000
      \<and> 5 \<le> product_price r \<and> product_price r \<le> 500
      \<and> 1 \<le> quantity r \<and> quantity r < 10))"
proof -
  have h: "(0::int) \<le> 1" by simp
  have c: "rng_contract (scripted [0, 1000, 0, 500 - 1 / 256, 1, 0, 0])"
    by (rule scripted_contract)
  show ?thesis by (intro conjI c h field_domains [OF c h])
qed

theorem price_below_500_counterexample:
  "generate (scripted [0, 1000, 0, 500 - 1 / 256, 1, 0, 0]) 42 1 [] =
     Inr [\<lparr>transaction_id = 1, customer_id = 1000, product_category = ''Electronics'',
           product_price = 500, quantity = 1, date = \<lparr>year = 2022, month = 1, day = 1\<rparr>,
           payment_method = ''Credit Card'', country = ''Germany'', total = 500\<rparr>]
   \<and> \<not> product_price
         \<lparr>transaction_id = 1, customer_id = 1000, product_category = ''Electronics'',
          product_price = 500, quantity = 1, date = \<lparr>year = 2022, month = 1, day = 1\<rparr>,
          payment_method = ''Credit Card'', country = ''Germany'', total = 500\<rparr> < 500"
  using generate_example_500 by simp

text \<open>
  Claim C1, as amended. For every generated record, \<open>total\<close> is the float64 product of the
  record's own \<open>product_price\<close> and \<open>quantity\<close>: the exact product rounded once to the
  nearest double, so within the fraction \<open>2^-53\<close> of it. No rounding to two decimals is
  applied to it.
\<close>

theorem total_is_float_product:
  assumes "rng_contract np" and "0 \<le> n"
  shows "\<exists>df. generate np seed n s = Inr df \<and>
     (\<forall>r \<in> set df.
        total r = fl (product_price r * of_int (quantity r))
      \<and> \<bar>total r - product_price r * of_int (quantity r)\<bar>
          \<le> product_price r * of_int (quantity r) / 2 ^ 53)"
proof -
  from generate_each_row [OF assms, of seed s] obtain df where
    g: "generate np seed n s = Inr df" and
    t: "\<forall>r \<in> set df.
        1000 \<le> customer_id r \<and> customer_id r < 50000
      \<and> product_category r \<in> set categories
      \<and> (\<exists>u. 5 \<le> u \<and> u < 500 \<and> product_price r = np_round u 2)
      \<and> 1 \<le> quantity r \<and> quantity r < 10
      \<and> payment_method r \<in> set payment_methods
      \<and> country r \<in> set countries
      \<and> total r = float_mul (product_price r) (of_int (quantity r))"
    by blast
  have "total r = fl (product_price r * of_int (quantity r))
      \<and> \<bar>total r - product_price r * of_int (quantity r)\<bar>
          \<le> product_price r * of_int (quantity r) / 2 ^ 53"
    if r: "r \<in> set df" for r
  proof -
    note f = t [rule_format, OF r]
    from f obtain u where u: "5 \<le> u" "u < 500" "product_price r = np_round u 2" by blast
    have p: "5 \<le> product_price r"
      using np_round_2_bounds(1) [OF u(1,2)] by (simp add: u(3))
    have q: "(1::rat) \<le> of_int (quantity r)" using f by simp
    have "1 * 1 \<le> product_price r * of_int (quantity r)"
      using p q by (intro mult_mono) simp_all
    then have "1 \<le> product_price r * of_int (quantity r)" by simp
    from fl_rel_error [OF this] f show ?thesis by (simp add: float_mul_def)
  qed
  with g show ?thesis by blast
qed

theorem total_is_float_product_witness:
  "rng_contract (scripted [0, 1000, 0, 5 + 13 / 128, 3, 0, 0]) \<and> (0::int) \<le> 1
   \<and> (\<exists>df. generate (scripted [0, 1000, 0, 5 + 13 / 128, 3, 0, 0]) 42 1 [] = Inr df \<and>
     (\<forall>r \<in> set df.
        total r = fl (product_price r * of_int (quantity r))
      \<and> \<bar>total r - product_price r * of_int (quantity r)\<bar>
          \<le> product_price r * of_int (quantity r) / 2 ^ 53))"
proof -
  have h: "(0::int) \<le> 1" by simp
  have c: "rng_contract (scripted [0, 1000, 0, 5 + 13 / 128, 3, 0, 0])"
    by (rule scripted_contract)
  show ?thesis by (intro conjI c h total_is_float_product [OF c h])
qed

theorem total_not_rounded_counterexample:
  "generate (scripted [0, 1000, 0, 5 + 13 / 128, 3, 0, 0]) 42 1 [] =
     Inr [\<lparr>transaction_id = 1, customer_id = 1000, product_category = ''Electronics'',
           product_price = 2871044762448691 / 562949953421312, quantity = 3,
           date = \<lparr>year = 2022, month = 1, day = 1\<rparr>,
           payment_method = ''Credit Card'', country = ''Germany'',
           total = 8613134287346073 / 562949953421312\<rparr>]
   \<and> 8613134287346073 / 562949953421312
       \<noteq> np_round (float_mul (2871044762448691 / 562949953421312) (of_int 3)) 2"
  using generate_example_51 by (simp add: float_mul_example_51 np_round_example_153)

subsection \<open>Runs with a row count that is not positive\<close>




lemma to_csv_success:
  assumes "fst (to_csv df path disk) = Inr ()"
  shows "files (snd (to_csv df path disk)) path = Some (csv_text df)"
  using assms by (simp add: to_csv_def Let_def split: if_splits option.splits)



lemma dirname_target: "dirname ''ecommerce_5m.csv'' = ''.''"
  by (simp add: dirname_def)





subsection \<open>Two runs with one configuration\<close>

lemma synthesize_reseed:
  assumes "rng_contract np"
  shows "synthesize np seed n s1 = synthesize np seed n s2"
  unfolding synthesize_def contract_seed [OF assms, of seed s1 s2] ..

lemma generate_reseed:
  assumes "rng_contract np"
  shows "generate np seed n s1 = generate np seed n s2"
  unfolding generate_def synthesize_reseed [OF assms, of seed n s1 s2] ..

lemma run_success:
  assumes "fst (run np seed n path s disk) = Inr ()"
  shows "\<exists>df. generate np seed n s = Inr df
             \<and> files (snd (run np seed n path s disk)) path = Some (csv_text df)"
proof (cases "generate np seed n s")
  case (Inl e)
  with assms show ?thesis by (simp add: run_def)
next
  case (Inr df)
  with assms have "fst (to_csv df path disk) = Inr ()" by (simp add: run_def)
  from to_csv_success [OF this] Inr show ?thesis by (simp add: run_def)
qed

text \<open>
  Claim C2. Two runs with the same row count and seed (the date window is fixed in the
  script) generate the same frame, whatever state the global generator was in when each
  run started, and when both runs complete, the two output files have the same content,
  whatever the file systems held before. What this rests on is that \<open>np.random.seed\<close>
  replaces the generator state.
\<close>

theorem run_deterministic:
  assumes "rng_contract np"
    and "fst (run np seed n path s1 disk1) = Inr ()"
    and "fst (run np seed n path s2 disk2) = Inr ()"
  shows "generate np seed n s1 = generate np seed n s2
       \<and> files (snd (run np seed n path s1 disk1)) path
           = files (snd (run np seed n path s2 disk2)) path
       \<and> files (snd (run np seed n path s1 disk1)) path \<noteq> None"
proof -
  from run_success [OF assms(2)] obtain df1 where
    a: "generate np seed n s1 = Inr df1"
       "files (snd (run np seed n path s1 disk1)) path = Some (csv_text df1)" by blast
  from run_success [OF assms(3)] obtain df2 where
    b: "generate np seed n s2 = Inr df2"
       "files (snd (run np seed n path s2 disk2)) path = Some (csv_text df2)" by blast
  have e: "generate np seed n s1 = generate np seed n s2"
    by (rule generate_reseed [OF assms(1)])
  with a b have "df1 = df2" by simp
  with a b e show ?thesis by simp
qed

subsection \<open>Cutting a text into lines and fields\<close>






subsection \<open>The characters of numbers and dates\<close>
















subsection \<open>A recorded run of two rows\<close>

text \<open>
  A run of two rows with recorded draws: the offsets 0 and 729, the price draws
  \<open>500 - 1/256\<close> and \<open>7.25\<close>, the quantities 1 and 2. Its frame and the text that \<open>to_csv\<close>
  writes for it are evaluated here and used as the example of the claims below.
\<close>

lemma np_round_example_725: "np_round (29 / 4) 2 = 29 / 4"
  by code_simp

lemma float_mul_example_725: "float_mul (29 / 4) (fl 2) = 29 / 2"
  by code_simp

lemma ord2ymd_last: "ord2ymd 738885 = \<lparr>year = 2023, month = 12, day = 31\<rparr>"
  using ord2ymd_in_window [of 729]
  by (simp add: DAYS_BEFORE_MONTH_def DAYS_IN_MONTH_def)

lemma draws_numeral:
  "draws f (numeral k) s =
     (let (x, s1) = f s; (xs, s2) = draws f (pred_numeral k) s1 in (x # xs, s2))"
  by (simp add: numeral_eq_Suc)

lemma dates_loop_numeral:
  "dates_loop np (numeral k) s =
     (let (off, s1) = np_randint np 0 730 s
      in case add_days start_date off of
           Inl e \<Rightarrow> Inl e
         | Inr d \<Rightarrow>
             (case dates_loop np (pred_numeral k) s1 of
                Inl e \<Rightarrow> Inl e
              | Inr (ds, s2) \<Rightarrow> Inr (d # ds, s2)))"
  by (simp add: numeral_eq_Suc)

lemma generate_example_two:
  "generate (scripted [0, 729, 1000, 7777, 0, 1, 500 - 1 / 256, 29 / 4, 1, 2, 0, 1, 0, 4]) 42 2 [] =
     Inr [\<lparr>transaction_id = 1, customer_id = 1000, product_category = ''Electronics'',
           product_price = 500, quantity = 1, date = \<lparr>year = 2022, month = 1, day = 1\<rparr>,
           payment_method = ''Credit Card'', country = ''Germany'', total = 500\<rparr>,
          \<lparr>transaction_id = 2, customer_id = 7777, product_category = ''Fashion'',
           product_price = 29 / 4, quantity = 2, date = \<lparr>year = 2023, month = 12, day = 31\<rparr>,
           payment_method = ''PayPal'', country = ''Belgium'', total = 29 / 2\<rparr>]"
  by (simp add: generate_def synthesize_def scripted_def sized_def range_py_def DataFrame_def
      set_total_def mul_columns_def add_days_def toordinal_start_date MAXORDINAL_def
      ord2ymd_start ord2ymd_last categories_def payment_methods_def countries_def
      np_round_example_500 float_mul_example_500 np_round_example_725 float_mul_example_725
      upto_rec1 draws_numeral dates_loop_numeral)

lemma str_int_examples:
  "str_int 1 = ''1''" "str_int 2 = ''2''" "str_int 1000 = ''1000''" "str_int 7777 = ''7777''"
  by code_simp+

lemma float_str_examples:
  "float_str 500 = ''500.0''" "float_str (29 / 4) = ''7.25''" "float_str (29 / 2) = ''14.5''"
  by code_simp+

lemma date_str_examples:
  "date_str \<lparr>year = 2022, month = 1, day = 1\<rparr> = ''2022-01-01''"
  "date_str \<lparr>year = 2023, month = 12, day = 31\<rparr> = ''2023-12-31''"
  by code_simp+

lemma csv_text_example_two:
  "csv_text
     [\<lparr>transaction_id = 1, customer_id = 1000, product_category = ''Electronics'',
       product_price = 500, quantity = 1, date = \<lparr>year = 2022, month = 1, day = 1\<rparr>,
       payment_method = ''Credit Card'', country = ''Germany'', total = 500\<rparr>,
      \<lparr>transaction_id = 2, customer_id = 7777, product_category = ''Fashion'',
       product_price = 29 / 4, quantity = 2, date = \<lparr>year = 2023, month = 12, day = 31\<rparr>,
       payment_method = ''PayPal'', country = ''Belgium'', total = 29 / 2\<rparr>] =
   ''transaction_id,customer_id,product_category,product_price,quantity,date,payment_method,country,total''
     @ [CHR 0x0A] @ ''1,1000,Electronics,500.0,1,2022-01-01,Credit Card,Germany,500.0''
     @ [CHR 0x0A] @ ''2,7777,Fashion,7.25,2,2023-12-31,PayPal,Belgium,14.5'' @ [CHR 0x0A]"
  by (simp add: csv_text_def csv_line_def csv_columns_def csv_field_def needs_quoting_def
      row_fields_def str_int_examples float_str_examples date_str_examples)

subsection \<open>Two runs of the recorded draws\<close>

lemma run_example_two_empty_disk:
  "run (scripted [0, 729, 1000, 7777, 0, 1, 500 - 1 / 256, 29 / 4, 1, 2, 0, 1, 0, 4]) 42 2
       ''ecommerce_5m.csv'' [] empty_disk =
     (Inr (), empty_disk\<lparr>open_calls := [''ecommerce_5m.csv''],
        files := [''ecommerce_5m.csv'' \<mapsto>
          ''transaction_id,customer_id,product_category,product_price,quantity,date,payment_method,country,total''
          @ [CHR 0x0A] @ ''1,1000,Electronics,500.0,1,2022-01-01,Credit Card,Germany,500.0''
          @ [CHR 0x0A] @ ''2,7777,Fashion,7.25,2,2023-12-31,PayPal,Belgium,14.5'' @ [CHR 0x0A]],
        free_bytes := 999782\<rparr>)"
  unfolding run_def generate_example_two sum.case
  by (simp add: to_csv_def dirname_target empty_disk_def csv_text_example_two Let_def)

lemma run_example_two_other_disk:
  "run (scripted [0, 729, 1000, 7777, 0, 1, 500 - 1 / 256, 29 / 4, 1, 2, 0, 1, 0, 4]) 42 2
       ''ecommerce_5m.csv'' [7]
       (empty_disk\<lparr>files := [''ecommerce_5m.csv'' \<mapsto> ''old''], free_bytes := 1000\<rparr>) =
     (Inr (), empty_disk\<lparr>open_calls := [''ecommerce_5m.csv''],
        files := [''ecommerce_5m.csv'' \<mapsto>
          ''transaction_id,customer_id,product_category,product_price,quantity,date,payment_method,country,total''
          @ [CHR 0x0A] @ ''1,1000,Electronics,500.0,1,2022-01-01,Credit Card,Germany,500.0''
          @ [CHR 0x0A] @ ''2,7777,Fashion,7.25,2,2023-12-31,PayPal,Belgium,14.5'' @ [CHR 0x0A]],
        free_bytes := 785\<rparr>)"
  unfolding run_def generate_reseed [OF scripted_contract, of _ 42 2 "[7]" "[]"]
    generate_example_two sum.case
  by (simp add: to_csv_def dirname_target empty_disk_def csv_text_example_two Let_def)

theorem run_deterministic_witness:
  "rng_contract (scripted [0, 729, 1000, 7777, 0, 1, 500 - 1 / 256, 29 / 4, 1, 2, 0, 1, 0, 4])
   \<and> fst (run (scripted [0, 729, 1000, 7777, 0, 1, 500 - 1 / 256, 29 / 4, 1, 2, 0, 1, 0, 4]) 42 2
          ''ecommerce_5m.csv'' [] empty_disk) = Inr ()
   \<and> fst (run (scripted [0, 729, 1000, 7777, 0, 1, 500 - 1 / 256, 29 / 4, 1, 2, 0, 1, 0, 4]) 42 2
          ''ecommerce_5m.csv'' [7]
          (empty_disk\<lparr>files := [''ecommerce_5m.csv'' \<mapsto> ''old''], free_bytes := 1000\<rparr>)) = Inr ()
   \<and> generate (scripted [0, 729, 1000, 7777, 0, 1, 500 - 1 / 256, 29 / 4, 1, 2, 0, 1, 0, 4]) 42 2 []
       = generate (scripted [0, 729, 1000, 7777, 0, 1, 500 - 1 / 256, 29 / 4, 1, 2, 0, 1, 0, 4]) 42 2 [7]
   \<and> files (snd (run (scripted [0, 729, 1000, 7777, 0, 1, 500 - 1 / 256, 29 / 4, 1, 2, 0, 1, 0, 4]) 42 2
          ''ecommerce_5m.csv'' [] empty_disk)) ''ecommerce_5m.csv''
       = files (snd (run (scripted [0, 729, 1000, 7777, 0, 1, 500 - 1 / 256, 29 / 4, 1, 2, 0, 1, 0, 4]) 42 2
          ''ecommerce_5m.csv'' [7]
          (empty_disk\<lparr>files := [''ecommerce_5m.csv'' \<mapsto> ''old''], free_bytes := 1000\<rparr>)))
           ''ecommerce_5m.csv''
   \<and> files (snd (run (scripted [0, 729, 1000, 7777, 0, 1, 500 - 1 / 256, 29 / 4, 1, 2, 0, 1, 0, 4]) 42 2
          ''ecommerce_5m.csv'' [] empty_disk)) ''ecommerce_5m.csv''
       = Some (''transaction_id,customer_id,product_category,product_price,quantity,date,payment_method,country,total''
          @ [CHR 0x0A] @ ''1,1000,Electronics,500.0,1,2022-01-01,Credit Card,Germany,500.0''
          @ [CHR 0x0A] @ ''2,7777,Fashion,7.25,2,2023-12-31,PayPal,Belgium,14.5'' @ [CHR 0x0A])"
proof -
  let ?np = "scripted [0, 729, 1000, 7777, 0, 1, 500 - 1 / 256, 29 / 4, 1, 2, 0, 1, 0, 4]"
  let ?d2 = "empty_disk\<lparr>files := [''ecommerce_5m.csv'' \<mapsto> ''old''], free_bytes := 1000\<rparr>"
  have c: "rng_contract ?np" by (rule scripted_contract)
  have a: "fst (run ?np 42 2 ''ecommerce_5m.csv'' [] empty_disk) = Inr ()"
    unfolding run_example_two_empty_disk by simp
  have b: "fst (run ?np 42 2 ''ecommerce_5m.csv'' [7] ?d2) = Inr ()"
    unfolding run_example_two_other_disk by simp
  have t: "files (snd (run ?np 42 2 ''ecommerce_5m.csv'' [] empty_disk)) ''ecommerce_5m.csv''
       = Some (''transaction_id,customer_id,product_category,product_price,quantity,date,payment_method,country,total''
          @ [CHR 0x0A] @ ''1,1000,Electronics,500.0,1,2022-01-01,Credit Card,Germany,500.0''
          @ [CHR 0x0A] @ ''2,7777,Fashion,7.25,2,2023-12-31,PayPal,Belgium,14.5'' @ [CHR 0x0A])"
    unfolding run_example_two_empty_disk by simp
  from run_deterministic [OF c a b]
  have "generate ?np 42 2 [] = generate ?np 42 2 [7]"
    and "files (snd (run ?np 42 2 ''ecommerce_5m.csv'' [] empty_disk)) ''ecommerce_5m.csv''
       = files (snd (run ?np 42 2 ''ecommerce_5m.csv'' [7] ?d2)) ''ecommerce_5m.csv''"
    by blast+
  then show ?thesis using c a b t by (intro conjI)
qed

subsection \<open>Runs whose target cannot be written\<close>





subsection \<open>The text of a date\<close>





subsection \<open>Fields that need no quoting\<close>







subsection \<open>The layout of the file\<close>






end
